theory Spec2Isabelle
  imports Main "HOL-Library.Multiset"
begin

section \<open>The search controller of pyserini/server/search\_controller.py\<close>

text \<open>
  The controller keeps one dictionary, \<open>self.indexes\<close>, from index names to
  \<open>IndexConfig\<close> objects. Everything else it touches is an external collaborator:
  the two searcher classes, the two prebuilt catalogs, \<open>check_downloaded\<close>,
  \<open>json.loads\<close> and the built-in \<open>int\<close>. The collaborators are the fields of an
  environment record; the controller's methods are functions from an environment
  and a controller state to a result and the state the call leaves behind. A
  Python exception is the \<open>Inl\<close> of the result; the state next to it is the state
  at the raise.
\<close>

subsection \<open>Python values\<close>

text \<open>
  What \<open>json.loads\<close> returns and what the catalog entries hold. A float is kept as
  its literal text, since no method of the controller computes with one.
\<close>

datatype pyval =
    PNone
  | PBool bool
  | PInt int
  | PFloat string
  | PStr string
  | PList "pyval list"
  | PDict "(string \<times> pyval) list"

datatype error =
    ValueError string
  | KeyError string
  | TypeError
  | AttributeError
  | JSONDecodeError
  | InvalidLiteral string
  | BackendError string

text \<open>
  \<open>ValueError\<close> carries the message of a \<open>raise ValueError(...)\<close> of this module;
  \<open>InvalidLiteral s\<close> is the \<open>ValueError\<close> that \<open>int(s)\<close> raises; \<open>TypeError\<close> is raised by
  \<open>json.loads(None)\<close>, by a string subscript of a value that is not a dictionary and
  by a constructor given a keyword it does not have; \<open>BackendError\<close> is whatever a
  searcher class raised, with its description.
\<close>

definition quoted :: "string \<Rightarrow> string" where
  "quoted s = CHR 0x27 # s @ [CHR 0x27]"

definition subscript :: "pyval \<Rightarrow> string \<Rightarrow> error + pyval" where
  \<comment> \<open>\<open>v[key]\<close> for a string key: a dictionary looks the key up, any other value
      raises \<open>TypeError\<close>.\<close>
  "subscript v key =
     (case v of
        PDict kvs \<Rightarrow> (case map_of kvs key of None \<Rightarrow> Inl (KeyError key) | Some x \<Rightarrow> Inr x)
      | _ \<Rightarrow> Inl TypeError)"

subsection \<open>Data\<close>

record 'b IndexConfig =
  name :: string
  searcher :: "'b option"
  ef_search :: "int option"
  encoder :: "string option"
  query_generator :: "string option"

text \<open>
  Modelled from the spec: \<open>IndexConfig\<close> is declared in pyserini/server/models.py,
  which is not among the sources. The spec's data model gives a handle the fields
  name, backend, search width, encoder and query generator, the last four absent
  until set; these are the fields this module reads and writes. There is no field
  \<open>path\<close>, so a constructor call that passes the keyword \<open>path\<close> raises \<open>TypeError\<close>.
  \<open>'b\<close> is the type of searcher objects.
\<close>

definition new_config ::
  "string \<Rightarrow> int option \<Rightarrow> string option \<Rightarrow> string option \<Rightarrow> 'b IndexConfig" where
  "new_config n ef enc qg =
     \<lparr>name = n, searcher = None, ef_search = ef, encoder = enc, query_generator = qg\<rparr>"

definition IndexConfig_init ::
  "string \<Rightarrow> string option \<Rightarrow> int option \<Rightarrow> string option \<Rightarrow> string option \<Rightarrow>
   error + 'b IndexConfig" where
  \<comment> \<open>\<open>IndexConfig(name=..., ...)\<close>; the second argument is the keyword \<open>path\<close>, \<open>None\<close>
      when the call does not pass it\<close>
  "IndexConfig_init n path_kw ef enc qg =
     (case path_kw of
        Some p \<Rightarrow> Inl TypeError
      | None \<Rightarrow> Inr (new_config n ef enc qg))"

record 's hit =
  hit_docid :: string
  hit_score :: 's
  hit_raw :: "string option"

text \<open>
  A hit as a searcher returns it: \<open>hit.docid\<close>, \<open>hit.score\<close> and
  \<open>hit.lucene_document.get("raw")\<close>. Scores are values of a linear order \<open>'s\<close>.
\<close>

record 's scored =
  docid :: string
  score :: 's

record 's candidate =
  cand_docid :: string
  cand_score :: 's
  cand_contents :: pyval

record 's response =
  query_qid :: string
  query_text :: string
  candidates :: "'s candidate list"

record document =
  doc_docid :: string
  doc_text :: pyval

record status =
  downloaded :: bool
  size_compressed :: pyval

datatype 'b event =
    LoadLucene string
  | LoadHnsw string "int option" "string option"
  | SearchCall 'b string int

text \<open>
  The calls made to the searcher classes, in the order they are made:
  \<open>LuceneSearcher.from_prebuilt_index(name)\<close>,
  \<open>LuceneHnswDenseSearcher.from_prebuilt_index(name, ef_search, encoder)\<close> and
  \<open>searcher.search(query, k)\<close>. An event is recorded when the call is made,
  whatever it returns.
\<close>

record 'b controller =
  indexes :: "string \<rightharpoonup> 'b IndexConfig"
  trace :: "'b event list"

record ('s, 'b) env =
  TF_INDEX_INFO :: "string \<rightharpoonup> (string \<times> pyval) list"
  LUCENE_HNSW_INDEX_INFO :: "string \<rightharpoonup> (string \<times> pyval) list"
  check_downloaded :: "string \<Rightarrow> error + bool"
  builtin_int :: "string \<Rightarrow> int option"
  lucene_from_prebuilt_index :: "string \<Rightarrow> string + 'b option"
  hnsw_from_prebuilt_index :: "string \<Rightarrow> int option \<Rightarrow> string option \<Rightarrow> string + 'b option"
  searcher_search :: "'b \<Rightarrow> string \<Rightarrow> int \<Rightarrow> string + 's hit list"
  searcher_doc :: "'b \<Rightarrow> string \<Rightarrow> string + string option option"
  json_loads :: "string \<Rightarrow> pyval option"

text \<open>
  The collaborators. A catalog maps a name to its entry, a dictionary.
  \<open>check_downloaded\<close> of pyserini.util returns a truth value or raises. \<open>builtin_int\<close>
  is Python's \<open>int()\<close> on a string, \<open>None\<close> where it raises \<open>ValueError\<close>. A
  \<open>from_prebuilt_index\<close> raises (\<open>Inl\<close>), returns \<open>None\<close> or returns a searcher.
  \<open>searcher_doc\<close> is \<open>searcher.doc(docid)\<close> followed by \<open>.raw()\<close>: no document, or
  the document's raw payload, itself a string or \<open>None\<close>. \<open>json_loads\<close> is \<open>None\<close>
  where \<open>json.loads\<close> raises \<open>JSONDecodeError\<close>.
\<close>

definition DEFAULT_INDEX :: string where
  "DEFAULT_INDEX = ''msmarco-v1-passage''"

definition SHARDS :: "string list" where
  "SHARDS = map (\<lambda>i. ''msmarco-v2.1-doc-segmented-shard0'' @ [''0123456789'' ! i]
                        @ ''.arctic-embed-l.hnsw-int8'') [0..<10]"

subsection \<open>The methods\<close>

definition unsupported_msg :: "string \<Rightarrow> string" where
  "unsupported_msg n = ''Index '' @ quoted n @ '' not currently supported in prebuilt indexes.''"

definition not_available_msg :: "string \<Rightarrow> string" where
  "not_available_msg n = ''Index '' @ quoted n @ '' not available''"

definition not_found_msg :: "string \<Rightarrow> string \<Rightarrow> string" where
  "not_found_msg d n = ''Document '' @ quoted d @ '' not found in index '' @ quoted n"

definition default_not_found_msg :: "string \<Rightarrow> string" where
  "default_not_found_msg n = ''Default index '' @ quoted n @ '' not found in prebuilt indexes.''"

definition log :: "'b event \<Rightarrow> 'b controller \<Rightarrow> 'b controller" where
  "log e c = c\<lparr>trace := trace c @ [e]\<rparr>"

definition store :: "'b IndexConfig \<Rightarrow> 'b controller \<Rightarrow> 'b controller" where
  \<comment> \<open>\<open>self.indexes[config.name] = config\<close>\<close>
  "store cfg c = c\<lparr>indexes := (indexes c)(name cfg \<mapsto> cfg)\<rparr>"

definition add_index ::
  "('s, 'b) env \<Rightarrow> 'b controller \<Rightarrow> 'b IndexConfig \<Rightarrow> (error + 'b IndexConfig) \<times> 'b controller" where
  "add_index E c config =
     (if name config \<in> set SHARDS then
        (let c1 = log (LoadHnsw (name config) (ef_search config) (encoder config)) c in
         case hnsw_from_prebuilt_index E (name config) (ef_search config) (encoder config) of
           Inl e \<Rightarrow> (Inl (BackendError e), c1)
         | Inr b \<Rightarrow> (Inr (config\<lparr>searcher := b\<rparr>), store (config\<lparr>searcher := b\<rparr>) c1))
      else if TF_INDEX_INFO E (name config) \<noteq> None then
        (let c1 = log (LoadLucene (name config)) c in
         case lucene_from_prebuilt_index E (name config) of
           Inl e \<Rightarrow> (Inl (BackendError e), c1)
         | Inr b \<Rightarrow> (Inr (config\<lparr>searcher := b\<rparr>), store (config\<lparr>searcher := b\<rparr>) c1))
      else (Inl (ValueError (unsupported_msg (name config))), c))"

definition initialize_default_index ::
  "('s, 'b) env \<Rightarrow> 'b controller \<Rightarrow> string \<Rightarrow> (error + unit) \<times> 'b controller" where
  "initialize_default_index E c default_index =
     (if TF_INDEX_INFO E default_index \<noteq> None then
        (case IndexConfig_init default_index None None None None of
           Inl e \<Rightarrow> (Inl e, c)
         | Inr config \<Rightarrow>
             (case add_index E c config of
                (Inl e, c1) \<Rightarrow> (Inl e, c1)
              | (Inr _, c1) \<Rightarrow> (Inr (), c1)))
      else (Inl (ValueError (default_not_found_msg default_index)), c))"

definition get_indexes :: "('s, 'b) env \<Rightarrow> string \<rightharpoonup> (string \<times> pyval) list" where
  "get_indexes E = TF_INDEX_INFO E ++ LUCENE_HNSW_INDEX_INFO E"

definition provision ::
  "('s, 'b) env \<Rightarrow> 'b controller \<Rightarrow> error + 'b IndexConfig \<Rightarrow> (error + 'b IndexConfig) \<times> 'b controller" where
  \<comment> \<open>\<open>self.add_index(IndexConfig(...))\<close>: the constructor call is evaluated first, and
      \<open>add_index\<close> is entered only when it returns\<close>
  "provision E c made =
     (case made of
        Inl e \<Rightarrow> (Inl e, c)
      | Inr fresh \<Rightarrow> add_index E c fresh)"

definition ensure ::
  "('s, 'b) env \<Rightarrow> 'b controller \<Rightarrow> string \<Rightarrow> error + 'b IndexConfig \<Rightarrow>
   (error + 'b IndexConfig) \<times> 'b controller" where
  \<comment> \<open>\<open>index_config = self.indexes.get(n)\<close>;
      \<open>if not index_config or not index_config.searcher:
         index_config = self.add_index(IndexConfig(...))\<close>.
      An \<open>IndexConfig\<close> object is never falsy, so \<open>not index_config\<close> is the missing key.
      \<open>made\<close> is what the constructor call gives when it is reached.\<close>
  "ensure E c n made =
     (case indexes c n of
        None \<Rightarrow> provision E c made
      | Some cfg \<Rightarrow> (if searcher cfg = None then provision E c made else (Inr cfg, c)))"

fun project_hits :: "('s, 'b) env \<Rightarrow> 's hit list \<Rightarrow> 's candidate list \<Rightarrow> error + 's candidate list" where
  \<comment> \<open>the loop of \<open>search\<close> over the hits, \<open>acc\<close> the candidates appended so far\<close>
  "project_hits E [] acc = Inr acc"
| "project_hits E (h # hs) acc =
     (case hit_raw h of
        None \<Rightarrow> Inl TypeError
      | Some r \<Rightarrow>
          (case json_loads E r of
             None \<Rightarrow> Inl JSONDecodeError
           | Some v \<Rightarrow>
               (case subscript v ''contents'' of
                  Inl e \<Rightarrow> Inl e
                | Inr t \<Rightarrow>
                    project_hits E hs
                      (acc @ [\<lparr>cand_docid = hit_docid h, cand_score = hit_score h,
                                cand_contents = t\<rparr>]))))"

definition search ::
  "('s, 'b) env \<Rightarrow> 'b controller \<Rightarrow> string \<Rightarrow> string \<Rightarrow> int \<Rightarrow> string \<Rightarrow> int option \<Rightarrow>
   string option \<Rightarrow> string option \<Rightarrow> (error + 's response) \<times> 'b controller" where
  "search E c query index_name k qid ef enc qg =
     (case ensure E c index_name (IndexConfig_init index_name (Some index_name) ef enc qg) of
        (Inl e, c1) \<Rightarrow> (Inl e, c1)
      | (Inr cfg, c1) \<Rightarrow>
          (case searcher cfg of
             None \<Rightarrow> (Inl AttributeError, c1)
           | Some b \<Rightarrow>
               (let c2 = log (SearchCall b query k) c1 in
                case searcher_search E b query k of
                  Inl e \<Rightarrow> (Inl (BackendError e), c2)
                | Inr hits \<Rightarrow>
                    (case project_hits E hits [] of
                       Inl e \<Rightarrow> (Inl e, c2)
                     | Inr cands \<Rightarrow>
                         (Inr \<lparr>query_qid = qid, query_text = query, candidates = cands\<rparr>, c2)))))"

definition search_single_shard ::
  "('s, 'b) env \<Rightarrow> 'b controller \<Rightarrow> string \<Rightarrow> string \<Rightarrow> int \<Rightarrow> int \<Rightarrow> string \<Rightarrow>
   (error + 's scored list) \<times> 'b controller" where
  \<comment> \<open>the method \<open>_search_single_shard\<close>; \<open>ef_search\<close> and \<open>encoder\<close> are an \<open>int\<close> and a
      \<open>str\<close> here, as annotated\<close>
  "search_single_shard E c shard_name query k ef enc =
     (case ensure E c shard_name (IndexConfig_init shard_name None (Some ef) (Some enc) None) of
        (Inl e, c1) \<Rightarrow> (Inl e, c1)
      | (Inr cfg, c1) \<Rightarrow>
          (case searcher cfg of
             None \<Rightarrow> (Inl AttributeError, c1)
           | Some b \<Rightarrow>
               (let c2 = log (SearchCall b query k) c1 in
                case searcher_search E b query k of
                  Inl e \<Rightarrow> (Inl (BackendError e), c2)
                | Inr hits \<Rightarrow>
                    (Inr (map (\<lambda>h. \<lparr>docid = hit_docid h, score = hit_score h\<rparr>) hits), c2))))"

text \<open>
  \<open>sharded_search\<close> submits one task per shard to a thread pool and reads the
  futures as they complete. \<open>order\<close> is the order of completion, a rearrangement
  of \<open>SHARDS\<close>; every task runs, each as one step, in that order. The loop over
  the completed futures stops at the first one whose task raised.
\<close>

fun run_tasks ::
  "('s, 'b) env \<Rightarrow> 'b controller \<Rightarrow> string list \<Rightarrow> string \<Rightarrow> int \<Rightarrow> int \<Rightarrow> string \<Rightarrow>
   (error + 's scored list) list \<times> 'b controller" where
  "run_tasks E c [] query k ef enc = ([], c)"
| "run_tasks E c (sh # rest) query k ef enc =
     (case search_single_shard E c sh query k ef enc of
        (r, c1) \<Rightarrow> (case run_tasks E c1 rest query k ef enc of (rs, c2) \<Rightarrow> (r # rs, c2)))"

fun collect :: "'a list \<Rightarrow> (error + 'a list) list \<Rightarrow> error + 'a list" where
  \<comment> \<open>\<open>for future in as_completed(...): all_results.extend(future.result())\<close>\<close>
  "collect acc [] = Inr acc"
| "collect acc (Inl e # rs) = Inl e"
| "collect acc (Inr xs # rs) = collect (acc @ xs) rs"

definition sort_desc :: "('s::linorder) scored list \<Rightarrow> 's scored list" where
  \<comment> \<open>\<open>list.sort(key=..., reverse=True)\<close>: the list is reversed, sorted stably
      in ascending order of the key, and reversed again\<close>
  "sort_desc xs = rev (sort_key score (rev xs))"

definition slice_to :: "int \<Rightarrow> 'a list \<Rightarrow> 'a list" where
  \<comment> \<open>\<open>xs[:k]\<close>; a negative \<open>k\<close> counts from the end\<close>
  "slice_to k xs = (if 0 \<le> k then take (nat k) xs else take (length xs - nat (- k)) xs)"

definition sharded_search ::
  "('s::linorder, 'b) env \<Rightarrow> 'b controller \<Rightarrow> string list \<Rightarrow> string \<Rightarrow> int \<Rightarrow> int \<Rightarrow> string \<Rightarrow>
   (error + 's scored list) \<times> 'b controller" where
  "sharded_search E c order query k ef enc =
     (case run_tasks E c order query k ef enc of
        (rs, c1) \<Rightarrow>
          (case collect [] rs of
             Inl e \<Rightarrow> (Inl e, c1)
           | Inr all_results \<Rightarrow> (Inr (slice_to k (sort_desc all_results)), c1)))"

text \<open>
  The result of \<open>_search_single_shard\<close> as a function of what the lookup or
  \<open>add_index\<close> gave: the lines from \<open>hits = index_config.searcher.search(query, k)\<close>
  on, without the state.
\<close>

definition task_tail ::
  "('s, 'b) env \<Rightarrow> error + 'b IndexConfig \<Rightarrow> string \<Rightarrow> int \<Rightarrow> error + 's scored list" where
  "task_tail E r query k =
     (case r of
        Inl e \<Rightarrow> Inl e
      | Inr cfg \<Rightarrow>
          (case searcher cfg of
             None \<Rightarrow> Inl AttributeError
           | Some b \<Rightarrow>
               (case searcher_search E b query k of
                  Inl e \<Rightarrow> Inl (BackendError e)
                | Inr hits \<Rightarrow> Inr (map (\<lambda>h. \<lparr>docid = hit_docid h, score = hit_score h\<rparr>) hits))))"

text \<open>
  The searcher a shard's task searches: the one of the shard's handle when the
  registry has a handle with a searcher, and otherwise the one that
  \<open>LuceneHnswDenseSearcher.from_prebuilt_index\<close> returns for the shard with the
  caller's search width and encoder. \<open>task_searcher E c sh ef enc b\<close> says that this
  searcher exists and is \<open>b\<close>.
\<close>

definition task_searcher ::
  "('s, 'b) env \<Rightarrow> 'b controller \<Rightarrow> string \<Rightarrow> int \<Rightarrow> string \<Rightarrow> 'b \<Rightarrow> bool" where
  "task_searcher E c sh ef enc b =
     (case indexes c sh of
        None \<Rightarrow> hnsw_from_prebuilt_index E sh (Some ef) (Some enc) = Inr (Some b)
      | Some cfg \<Rightarrow>
          (case searcher cfg of
             None \<Rightarrow> hnsw_from_prebuilt_index E sh (Some ef) (Some enc) = Inr (Some b)
           | Some b' \<Rightarrow> b' = b))"

fun is_search_call :: "'b event \<Rightarrow> bool" where
  "is_search_call (SearchCall b q k) = True"
| "is_search_call (LoadLucene n) = False"
| "is_search_call (LoadHnsw n ef enc) = False"

definition document_of ::
  "('s, 'b) env \<Rightarrow> 'b \<Rightarrow> string \<Rightarrow> string \<Rightarrow> error + document" where
  \<comment> \<open>\<open>get_document\<close> from \<open>doc = index_config.searcher.doc(docid)\<close> on, for the
      searcher \<open>b\<close>\<close>
  "document_of E b did index_name =
     (case searcher_doc E b did of
        Inl e \<Rightarrow> Inl (BackendError e)
      | Inr None \<Rightarrow> Inl (ValueError (not_found_msg did index_name))
      | Inr (Some None) \<Rightarrow> Inl TypeError
      | Inr (Some (Some r)) \<Rightarrow>
          (case json_loads E r of
             None \<Rightarrow> Inl JSONDecodeError
           | Some v \<Rightarrow>
               (case subscript v ''contents'' of
                  Inl e \<Rightarrow> Inl e
                | Inr t \<Rightarrow> Inr \<lparr>doc_docid = did, doc_text = t\<rparr>)))"

definition get_document ::
  "('s, 'b) env \<Rightarrow> 'b controller \<Rightarrow> string \<Rightarrow> string \<Rightarrow> (error + document) \<times> 'b controller" where
  \<comment> \<open>a handle without a searcher gets one from \<open>LuceneSearcher.from_prebuilt_index\<close>,
      assigned to the object the registry holds\<close>
  "get_document E c did index_name =
     (case indexes c index_name of
        None \<Rightarrow> (Inl (KeyError index_name), c)
      | Some cfg \<Rightarrow>
          (case searcher cfg of
             Some b \<Rightarrow> (document_of E b did index_name, c)
           | None \<Rightarrow>
               (let c1 = log (LoadLucene (name cfg)) c in
                case lucene_from_prebuilt_index E (name cfg) of
                  Inl e \<Rightarrow> (Inl (BackendError e), c1)
                | Inr None \<Rightarrow>
                    (Inl AttributeError,
                     c1\<lparr>indexes := (indexes c1)(index_name \<mapsto> cfg\<lparr>searcher := None\<rparr>)\<rparr>)
                | Inr (Some b) \<Rightarrow>
                    (document_of E b did index_name,
                     c1\<lparr>indexes := (indexes c1)(index_name \<mapsto> cfg\<lparr>searcher := Some b\<rparr>)\<rparr>))))"

definition size_key :: string where
  "size_key = ''size compressed (bytes)''"

definition get_status ::
  "('s, 'b) env \<Rightarrow> 'b controller \<Rightarrow> string \<Rightarrow> (error + status) \<times> 'b controller" where
  \<comment> \<open>\<open>check_downloaded(index_name)\<close> is called first and is not guarded;
      \<open>TF_INDEX_INFO.get(index_name)\<close> is falsy for a missing name and for an
      empty entry\<close>
  "get_status E c index_name =
     (case check_downloaded E index_name of
        Inl e \<Rightarrow> (Inl e, c)
      | Inr d \<Rightarrow>
          (case TF_INDEX_INFO E index_name of
             None \<Rightarrow> (Inr \<lparr>downloaded = d, size_compressed = PStr ''Not available''\<rparr>, c)
           | Some entry \<Rightarrow>
               (if entry = []
                then (Inr \<lparr>downloaded = d, size_compressed = PStr ''Not available''\<rparr>, c)
                else (case map_of entry size_key of
                        None \<Rightarrow> (Inl (KeyError size_key), c)
                      | Some v \<Rightarrow> (Inr \<lparr>downloaded = d, size_compressed = v\<rparr>, c)))))"

definition update_settings ::
  "('s, 'b) env \<Rightarrow> 'b controller \<Rightarrow> string \<Rightarrow> string option \<Rightarrow> string option \<Rightarrow> string option \<Rightarrow>
   (error + unit) \<times> 'b controller" where
  \<comment> \<open>\<open>self.indexes[index_name]\<close> raises \<open>KeyError\<close> for a missing name, before the
      test \<open>if not index_config\<close>; the test is never true of an \<open>IndexConfig\<close>.
      \<open>int(ef_search)\<close> is evaluated before the first assignment. The three
      assignments write into the object the registry holds.\<close>
  "update_settings E c index_name ef enc qg =
     (case indexes c index_name of
        None \<Rightarrow> (Inl (KeyError index_name), c)
      | Some cfg \<Rightarrow>
          (case (case ef of
                   None \<Rightarrow> Inr cfg
                 | Some s \<Rightarrow>
                     (case builtin_int E s of
                        None \<Rightarrow> Inl (InvalidLiteral s)
                      | Some n \<Rightarrow> Inr (cfg\<lparr>ef_search := Some n\<rparr>)))
           of
             Inl e \<Rightarrow> (Inl e, c)
           | Inr cfg1 \<Rightarrow>
               (let cfg2 = (case enc of None \<Rightarrow> cfg1 | Some x \<Rightarrow> cfg1\<lparr>encoder := Some x\<rparr>);
                    cfg3 = (case qg of None \<Rightarrow> cfg2 | Some x \<Rightarrow> cfg2\<lparr>query_generator := Some x\<rparr>)
                in (Inr (), c\<lparr>indexes := (indexes c)(index_name \<mapsto> cfg3)\<rparr>))))"

datatype setting = IntSetting int | StrSetting string

definition settings_of :: "'b IndexConfig \<Rightarrow> (string \<times> setting) list" where
  \<comment> \<open>the dictionary \<open>get_settings\<close> builds, in insertion order\<close>
  "settings_of cfg =
     (case ef_search cfg of None \<Rightarrow> [] | Some n \<Rightarrow> [(''efSearch'', IntSetting n)])
   @ (case encoder cfg of None \<Rightarrow> [] | Some x \<Rightarrow> [(''encoder'', StrSetting x)])
   @ (case query_generator cfg of None \<Rightarrow> [] | Some x \<Rightarrow> [(''queryGenerator'', StrSetting x)])"

definition get_settings ::
  "'b controller \<Rightarrow> string \<Rightarrow> (error + (string \<times> setting) list) \<times> 'b controller" where
  \<comment> \<open>as in \<open>update_settings\<close>, a missing name is the \<open>KeyError\<close> of the subscript\<close>
  "get_settings c index_name =
     (case indexes c index_name of
        None \<Rightarrow> (Inl (KeyError index_name), c)
      | Some cfg \<Rightarrow> (Inr (settings_of cfg), c))"

definition init_controller :: "'b controller" where
  \<comment> \<open>\<open>SearchController.__init__\<close>\<close>
  "init_controller = \<lparr>indexes = Map.empty, trace = []\<rparr>"

subsection \<open>A concrete environment\<close>

text \<open>
  One lexical index, one vector index that is no shard, and the ten shards, three of
  which hold documents; searcher objects are named by the index they were loaded
  for. \<open>check_downloaded\<close> answers for the names of the two catalogs and raises the
  \<open>KeyError\<close> of its last catalog lookup for any other name. \<open>int()\<close> is given on the
  texts the examples use: it reads \<open>200\<close> and refuses everything else, \<open>wide\<close> among
  it. The theorems below are applied to this environment.
\<close>

definition hello_payload :: string where
  "hello_payload = ''{'' @ [CHR 0x22] @ ''contents'' @ [CHR 0x22] @ '': '' @ [CHR 0x22]
                   @ ''hello world'' @ [CHR 0x22] @ ''}''"

definition shard_hits :: "string \<Rightarrow> int hit list" where
  "shard_hits b =
     (if b = SHARDS ! 0 then
        [\<lparr>hit_docid = ''a1'', hit_score = 9, hit_raw = None\<rparr>,
         \<lparr>hit_docid = ''a2'', hit_score = 7, hit_raw = None\<rparr>,
         \<lparr>hit_docid = ''a3'', hit_score = 5, hit_raw = None\<rparr>]
      else if b = SHARDS ! 1 then
        [\<lparr>hit_docid = ''b1'', hit_score = 8, hit_raw = None\<rparr>,
         \<lparr>hit_docid = ''b2'', hit_score = 6, hit_raw = None\<rparr>,
         \<lparr>hit_docid = ''b3'', hit_score = 4, hit_raw = None\<rparr>]
      else if b = SHARDS ! 2 then
        [\<lparr>hit_docid = ''c1'', hit_score = 3, hit_raw = None\<rparr>,
         \<lparr>hit_docid = ''c2'', hit_score = 2, hit_raw = None\<rparr>,
         \<lparr>hit_docid = ''c3'', hit_score = 1, hit_raw = None\<rparr>]
      else if b = DEFAULT_INDEX then
        [\<lparr>hit_docid = ''d1'', hit_score = 2, hit_raw = Some hello_payload\<rparr>]
      else [])"

definition demo_env :: "(int, string) env" where
  "demo_env =
     \<lparr>TF_INDEX_INFO = [DEFAULT_INDEX \<mapsto> [(''description'', PStr ''MS MARCO passages''),
                                             (size_key, PInt 2170758745)]],
      LUCENE_HNSW_INDEX_INFO = [''beir-v1.0.0-nfcorpus.bge-base-en-v1.5.hnsw'' \<mapsto>
                                  [(size_key, PInt 13000000)]],
      check_downloaded =
        (\<lambda>n. if n = DEFAULT_INDEX then Inr True
             else if n = ''beir-v1.0.0-nfcorpus.bge-base-en-v1.5.hnsw'' then Inr False
             else Inl (KeyError n)),
      builtin_int = (\<lambda>s. if s = ''200'' then Some 200 else None),
      lucene_from_prebuilt_index = (\<lambda>n. Inr (Some n)),
      hnsw_from_prebuilt_index = (\<lambda>n ef enc. Inr (Some n)),
      searcher_search = (\<lambda>b q k. Inr (take (nat k) (shard_hits b))),
      searcher_doc = (\<lambda>b d. Inr (if d = ''d1'' then Some (Some hello_payload) else None)),
      json_loads = (\<lambda>r. if r = hello_payload
                          then Some (PDict [(''contents'', PStr ''hello world'')]) else None)\<rparr>"

definition tuned_controller :: "string controller" where
  \<comment> \<open>a registry with one loaded handle whose three settings are set\<close>
  "tuned_controller =
     \<lparr>indexes = [DEFAULT_INDEX \<mapsto>
                   \<lparr>name = DEFAULT_INDEX, searcher = Some DEFAULT_INDEX,
                    ef_search = Some 100, encoder = Some ''bm25'',
                    query_generator = Some ''rm3''\<rparr>],
      trace = [LoadLucene DEFAULT_INDEX]\<rparr>"

text \<open>
  The controller after \<open>initialize_default_index\<close> on the empty registry, and what
  a search for the default index returns there.
\<close>

definition first_response :: "int response" where
  "first_response = \<lparr>query_qid = ''1'', query_text = ''q'',
       candidates = [\<lparr>cand_docid = ''d1'', cand_score = 2, cand_contents = PStr ''hello world''\<rparr>]\<rparr>"

definition loaded_controller :: "string controller" where
  "loaded_controller =
     \<lparr>indexes = [DEFAULT_INDEX \<mapsto>
                   \<lparr>name = DEFAULT_INDEX, searcher = Some DEFAULT_INDEX,
                    ef_search = None, encoder = None, query_generator = None\<rparr>],
      trace = [LoadLucene DEFAULT_INDEX]\<rparr>"

text \<open>The same environment with one shard whose searcher raises.\<close>

definition failing_env :: "(int, string) env" where
  "failing_env =
     demo_env\<lparr>searcher_search :=
       (\<lambda>b q k. if b = SHARDS ! 4 then Inl ''index reader closed''
                  else searcher_search demo_env b q k)\<rparr>"

text \<open>
  What each shard of the environment contributes for \<open>k = 3\<close>, and the pool of all
  ten contributions in the order of \<open>SHARDS\<close>.
\<close>

definition demo_res :: "string \<Rightarrow> int scored list" where
  "demo_res sh = map (\<lambda>h. \<lparr>docid = hit_docid h, score = hit_score h\<rparr>) (take 3 (shard_hits sh))"

definition demo_pool :: "int scored list" where
  "demo_pool =
     [\<lparr>docid = ''a1'', score = 9\<rparr>, \<lparr>docid = ''a2'', score = 7\<rparr>, \<lparr>docid = ''a3'', score = 5\<rparr>,
      \<lparr>docid = ''b1'', score = 8\<rparr>, \<lparr>docid = ''b2'', score = 6\<rparr>, \<lparr>docid = ''b3'', score = 4\<rparr>,
      \<lparr>docid = ''c1'', score = 3\<rparr>, \<lparr>docid = ''c2'', score = 2\<rparr>, \<lparr>docid = ''c3'', score = 1\<rparr>]"

section \<open>Properties\<close>

subsection \<open>The shard names\<close>

lemma SHARDS_list:
  "SHARDS =
     [''msmarco-v2.1-doc-segmented-shard00.arctic-embed-l.hnsw-int8'',
      ''msmarco-v2.1-doc-segmented-shard01.arctic-embed-l.hnsw-int8'',
      ''msmarco-v2.1-doc-segmented-shard02.arctic-embed-l.hnsw-int8'',
      ''msmarco-v2.1-doc-segmented-shard03.arctic-embed-l.hnsw-int8'',
      ''msmarco-v2.1-doc-segmented-shard04.arctic-embed-l.hnsw-int8'',
      ''msmarco-v2.1-doc-segmented-shard05.arctic-embed-l.hnsw-int8'',
      ''msmarco-v2.1-doc-segmented-shard06.arctic-embed-l.hnsw-int8'',
      ''msmarco-v2.1-doc-segmented-shard07.arctic-embed-l.hnsw-int8'',
      ''msmarco-v2.1-doc-segmented-shard08.arctic-embed-l.hnsw-int8'',
      ''msmarco-v2.1-doc-segmented-shard09.arctic-embed-l.hnsw-int8'']"
  by (simp add: SHARDS_def upt_rec [of _ "numeral _"] upt_rec [of _ "Suc _"] upt_rec [of _ 1])

lemma not_a_real_index_unlisted: "''not-a-real-index'' \<notin> set SHARDS"
  by (simp add: SHARDS_list)

lemma shards_distinct: "distinct SHARDS"
  by (simp add: SHARDS_list)

lemma default_not_shard: "DEFAULT_INDEX \<notin> set SHARDS"
  by (simp add: SHARDS_list DEFAULT_INDEX_def)

subsection \<open>Unsupported names\<close>

text \<open>
  Claim C4. A configuration whose name is neither one of \<open>SHARDS\<close> nor a key of
  \<open>TF_INDEX_INFO\<close> is refused by \<open>add_index\<close> with the \<open>ValueError\<close> "Index '...' not
  currently supported in prebuilt indexes."; \<open>add_index\<close> catches nothing, so this is
  the error its caller receives. The controller is returned as it was: no entry
  added, none overwritten, no searcher loaded.
\<close>

theorem add_index_unsupported:
  assumes "name config \<notin> set SHARDS" and "TF_INDEX_INFO E (name config) = None"
  shows "add_index E c config = (Inl (ValueError (unsupported_msg (name config))), c)"
  using assms by (simp add: add_index_def)

theorem add_index_unsupported_witness:
  "name (new_config ''not-a-real-index'' None None None :: string IndexConfig) \<notin> set SHARDS \<and>
   TF_INDEX_INFO demo_env ''not-a-real-index'' = None \<and>
   add_index demo_env tuned_controller (new_config ''not-a-real-index'' None None None)
     = (Inl (ValueError (unsupported_msg ''not-a-real-index'')), tuned_controller)"
proof -
  let ?cfg = "new_config ''not-a-real-index'' None None None :: string IndexConfig"
  have n: "name ?cfg = ''not-a-real-index''" by (simp add: new_config_def)
  have h1: "name ?cfg \<notin> set SHARDS" using not_a_real_index_unlisted n by simp
  have h2: "TF_INDEX_INFO demo_env (name ?cfg) = None"
    by (simp add: n demo_env_def DEFAULT_INDEX_def)
  have t: "add_index demo_env tuned_controller ?cfg
             = (Inl (ValueError (unsupported_msg ''not-a-real-index'')), tuned_controller)"
    using add_index_unsupported [OF h1 h2, of tuned_controller] by (simp add: n)
  from h1 h2 [unfolded n] t show ?thesis by (intro conjI)
qed

subsection \<open>Reading the settings\<close>

lemma settings_of_keys:
  "map_of (settings_of cfg) ''efSearch'' = map_option IntSetting (ef_search cfg)"
  "map_of (settings_of cfg) ''encoder'' = map_option StrSetting (encoder cfg)"
  "map_of (settings_of cfg) ''queryGenerator'' = map_option StrSetting (query_generator cfg)"
  by (simp_all add: settings_of_def split: option.splits)

lemma settings_of_other:
  "key \<noteq> ''efSearch'' \<Longrightarrow> key \<noteq> ''encoder'' \<Longrightarrow> key \<noteq> ''queryGenerator'' \<Longrightarrow>
   map_of (settings_of cfg) key = None"
  by (simp add: settings_of_def split: option.splits)

lemma settings_of_distinct: "distinct (map fst (settings_of cfg))"
  by (simp add: settings_of_def split: option.splits)

lemma settings_of_empty:
  "settings_of cfg = [] \<longleftrightarrow> ef_search cfg = None \<and> encoder cfg = None \<and> query_generator cfg = None"
  by (simp add: settings_of_def split: option.splits)

lemma add_index_stores:
  assumes "add_index E c config = (Inr r, c')"
  shows "indexes c' (name config) = Some r" and "name r = name config"
    and "ef_search r = ef_search config" and "encoder r = encoder config"
    and "query_generator r = query_generator config"
  using assms
  by (auto simp: add_index_def store_def log_def Let_def split: if_splits sum.splits)

text \<open>
  Claim C6. For a name that has a handle, \<open>get_settings\<close> returns a dictionary whose
  keys are distinct and are exactly the settings that are set: \<open>efSearch\<close>, \<open>encoder\<close>
  and \<open>queryGenerator\<close> are present with the handle's value when the field is not
  \<open>None\<close> and absent when it is, no other key is present, and the dictionary is empty
  exactly when all three fields are \<open>None\<close>. The controller is returned unchanged. On
  the handle that \<open>add_index\<close> has just created from a configuration without
  settings, the dictionary is empty.
\<close>

theorem get_settings_only_set_fields:
  "(indexes c n = Some cfg \<longrightarrow>
      (\<exists>kvs. get_settings c n = (Inr kvs, c) \<and> distinct (map fst kvs) \<and>
         map_of kvs ''efSearch'' = map_option IntSetting (ef_search cfg) \<and>
         map_of kvs ''encoder'' = map_option StrSetting (encoder cfg) \<and>
         map_of kvs ''queryGenerator'' = map_option StrSetting (query_generator cfg) \<and>
         (\<forall>key. key \<noteq> ''efSearch'' \<and> key \<noteq> ''encoder'' \<and> key \<noteq> ''queryGenerator''
                  \<longrightarrow> map_of kvs key = None) \<and>
         (kvs = [] \<longleftrightarrow> ef_search cfg = None \<and> encoder cfg = None \<and> query_generator cfg = None)))
   \<and> (add_index E c0 (new_config n None None None) = (Inr r, c) \<longrightarrow>
        get_settings c n = (Inr [], c))"
proof (intro conjI impI)
  assume h: "indexes c n = Some cfg"
  then have "get_settings c n = (Inr (settings_of cfg), c)"
    by (simp add: get_settings_def)
  then show "\<exists>kvs. get_settings c n = (Inr kvs, c) \<and> distinct (map fst kvs) \<and>
         map_of kvs ''efSearch'' = map_option IntSetting (ef_search cfg) \<and>
         map_of kvs ''encoder'' = map_option StrSetting (encoder cfg) \<and>
         map_of kvs ''queryGenerator'' = map_option StrSetting (query_generator cfg) \<and>
         (\<forall>key. key \<noteq> ''efSearch'' \<and> key \<noteq> ''encoder'' \<and> key \<noteq> ''queryGenerator''
                  \<longrightarrow> map_of kvs key = None) \<and>
         (kvs = [] \<longleftrightarrow> ef_search cfg = None \<and> encoder cfg = None \<and> query_generator cfg = None)"
    using settings_of_keys [of cfg] settings_of_other [of _ cfg] settings_of_distinct [of cfg]
          settings_of_empty [of cfg]
    by blast
next
  assume a: "add_index E c0 (new_config n None None None) = (Inr r, c)"
  have "indexes c n = Some r"
    using add_index_stores(1) [OF a] by (simp add: new_config_def)
  moreover have "settings_of r = []"
    using add_index_stores(3,4,5) [OF a] by (simp add: settings_of_empty new_config_def)
  ultimately show "get_settings c n = (Inr [], c)"
    by (simp add: get_settings_def)
qed

theorem get_settings_only_set_fields_witness:
  "indexes tuned_controller DEFAULT_INDEX
     = Some \<lparr>name = DEFAULT_INDEX, searcher = Some DEFAULT_INDEX,
             ef_search = Some 100, encoder = Some ''bm25'', query_generator = Some ''rm3''\<rparr> \<and>
   add_index demo_env init_controller (new_config DEFAULT_INDEX None None None)
     = (Inr \<lparr>name = DEFAULT_INDEX, searcher = Some DEFAULT_INDEX,
             ef_search = None, encoder = None, query_generator = None\<rparr>,
        \<lparr>indexes = [DEFAULT_INDEX \<mapsto>
                      \<lparr>name = DEFAULT_INDEX, searcher = Some DEFAULT_INDEX,
                       ef_search = None, encoder = None, query_generator = None\<rparr>],
         trace = [LoadLucene DEFAULT_INDEX]\<rparr>) \<and>
   (\<exists>kvs. get_settings tuned_controller DEFAULT_INDEX = (Inr kvs, tuned_controller) \<and>
          map_of kvs ''efSearch'' = Some (IntSetting 100) \<and>
          map_of kvs ''encoder'' = Some (StrSetting ''bm25'') \<and>
          map_of kvs ''queryGenerator'' = Some (StrSetting ''rm3'') \<and>
          map_of kvs ''name'' = None) \<and>
   fst (get_settings
          \<lparr>indexes = [DEFAULT_INDEX \<mapsto>
                      \<lparr>name = DEFAULT_INDEX, searcher = Some DEFAULT_INDEX,
                       ef_search = None, encoder = None, query_generator = None\<rparr>],
           trace = [LoadLucene DEFAULT_INDEX]\<rparr> DEFAULT_INDEX) = Inr []"
proof -
  let ?cfg = "\<lparr>name = DEFAULT_INDEX, searcher = Some DEFAULT_INDEX,
               ef_search = Some 100, encoder = Some ''bm25'', query_generator = Some ''rm3''\<rparr>"
  let ?r = "\<lparr>name = DEFAULT_INDEX, searcher = Some DEFAULT_INDEX,
             ef_search = None, encoder = None, query_generator = None\<rparr>"
  let ?c = "\<lparr>indexes = [DEFAULT_INDEX \<mapsto> ?r], trace = [LoadLucene DEFAULT_INDEX]\<rparr>"
  have h1: "indexes tuned_controller DEFAULT_INDEX = Some ?cfg"
    by (simp add: tuned_controller_def)
  have h2: "add_index demo_env init_controller (new_config DEFAULT_INDEX None None None)
              = (Inr ?r, ?c)"
    using default_not_shard
    by (simp add: add_index_def new_config_def demo_env_def init_controller_def log_def store_def)
  have t1: "\<exists>kvs. get_settings tuned_controller DEFAULT_INDEX = (Inr kvs, tuned_controller) \<and>
          map_of kvs ''efSearch'' = Some (IntSetting 100) \<and>
          map_of kvs ''encoder'' = Some (StrSetting ''bm25'') \<and>
          map_of kvs ''queryGenerator'' = Some (StrSetting ''rm3'') \<and>
          map_of kvs ''name'' = None"
  proof -
    from get_settings_only_set_fields
           [of tuned_controller DEFAULT_INDEX ?cfg demo_env init_controller ?r] h1
    obtain kvs where k: "get_settings tuned_controller DEFAULT_INDEX = (Inr kvs, tuned_controller)"
      "map_of kvs ''efSearch'' = map_option IntSetting (ef_search ?cfg)"
      "map_of kvs ''encoder'' = map_option StrSetting (encoder ?cfg)"
      "map_of kvs ''queryGenerator'' = map_option StrSetting (query_generator ?cfg)"
      "\<forall>key. key \<noteq> ''efSearch'' \<and> key \<noteq> ''encoder'' \<and> key \<noteq> ''queryGenerator''
                  \<longrightarrow> map_of kvs key = None"
      by blast
    have "map_of kvs ''name'' = None" using k(5) by simp
    with k(1-4) show ?thesis by simp
  qed
  have t2: "fst (get_settings ?c DEFAULT_INDEX) = Inr []"
  proof -
    from get_settings_only_set_fields
           [of ?c DEFAULT_INDEX ?r demo_env init_controller ?r] h2
    have "get_settings ?c DEFAULT_INDEX = (Inr [], ?c)" by blast
    then show ?thesis by simp
  qed
  from h1 h2 t1 t2 show ?thesis by (intro conjI)
qed

subsection \<open>Settings of a name without a handle\<close>

text \<open>
  Claim C7. On the empty registry, \<open>update_settings\<close> and \<open>get_settings\<close> for the name
  \<open>no-such-index\<close> both raise the \<open>KeyError\<close> of the subscript \<open>self.indexes[index_name]\<close>
  and leave the controller as it was. The \<open>ValueError\<close> "Index '...' not available" of
  the next line of either method is a different error and is not what the caller
  receives.
\<close>

theorem settings_of_unknown_name_raise_key_error:
  "update_settings demo_env (init_controller :: string controller) ''no-such-index'' None (Some ''X'') None
     = (Inl (KeyError ''no-such-index''), init_controller) \<and>
   get_settings (init_controller :: string controller) ''no-such-index''
     = (Inl (KeyError ''no-such-index''), init_controller) \<and>
   KeyError ''no-such-index'' \<noteq> ValueError (not_available_msg ''no-such-index'')"
  by (simp add: update_settings_def get_settings_def init_controller_def)

subsection \<open>Status\<close>

text \<open>
  Claim C10, as stated, at a name that is in no catalog. \<open>get_status\<close> calls
  \<open>check_downloaded\<close> before anything else and does not guard the call; for the name
  \<open>not-a-real-index\<close>, which is not in the lexical catalog, \<open>check_downloaded\<close> raises
  and \<open>get_status\<close> returns no mapping: it raises the same \<open>KeyError\<close>.
\<close>

theorem get_status_unlisted_name_counterexample:
  "TF_INDEX_INFO demo_env ''not-a-real-index'' = None \<and>
   get_status demo_env tuned_controller ''not-a-real-index''
     = (Inl (KeyError ''not-a-real-index''), tuned_controller)"
  by (simp add: get_status_def demo_env_def DEFAULT_INDEX_def)

text \<open>
  Claim C10, amended. For a name for which \<open>check_downloaded\<close> returns a truth
  value, \<open>get_status\<close> returns that value as \<open>downloaded\<close> and a size: for a name that
  is not a key of \<open>TF_INDEX_INFO\<close> the string "Not available", whatever
  \<open>LUCENE_HNSW_INDEX_INFO\<close> holds for it, and for a name whose entry in
  \<open>TF_INDEX_INFO\<close> has the field "size compressed (bytes)" the value of that field.
  For a name for which \<open>check_downloaded\<close> raises, \<open>get_status\<close> raises the same error.
  The controller is returned unchanged in every case.
\<close>

theorem get_status_size:
  "(check_downloaded E n = Inr d \<and> TF_INDEX_INFO E n = None \<longrightarrow>
      get_status E c n
        = (Inr \<lparr>downloaded = d, size_compressed = PStr ''Not available''\<rparr>, c))
   \<and> (check_downloaded E n = Inr d \<and> TF_INDEX_INFO E n = Some entry \<and>
        map_of entry size_key = Some v \<longrightarrow>
      get_status E c n = (Inr \<lparr>downloaded = d, size_compressed = v\<rparr>, c))
   \<and> (check_downloaded E n = Inl e \<longrightarrow> get_status E c n = (Inl e, c))
   \<and> snd (get_status E c n) = c"
proof (cases "check_downloaded E n")
  case (Inl x)
  then show ?thesis by (simp add: get_status_def)
next
  case (Inr x)
  then show ?thesis by (auto simp: get_status_def split: option.splits)
qed

theorem get_status_size_witness:
  "check_downloaded demo_env ''beir-v1.0.0-nfcorpus.bge-base-en-v1.5.hnsw'' = Inr False \<and>
   TF_INDEX_INFO demo_env ''beir-v1.0.0-nfcorpus.bge-base-en-v1.5.hnsw'' = None \<and>
   LUCENE_HNSW_INDEX_INFO demo_env ''beir-v1.0.0-nfcorpus.bge-base-en-v1.5.hnsw''
     = Some [(size_key, PInt 13000000)] \<and>
   get_status demo_env tuned_controller ''beir-v1.0.0-nfcorpus.bge-base-en-v1.5.hnsw''
     = (Inr \<lparr>downloaded = False, size_compressed = PStr ''Not available''\<rparr>, tuned_controller) \<and>
   check_downloaded demo_env DEFAULT_INDEX = Inr True \<and>
   TF_INDEX_INFO demo_env DEFAULT_INDEX
     = Some [(''description'', PStr ''MS MARCO passages''), (size_key, PInt 2170758745)] \<and>
   map_of [(''description'', PStr ''MS MARCO passages''), (size_key, PInt 2170758745)] size_key
     = Some (PInt 2170758745) \<and>
   get_status demo_env tuned_controller DEFAULT_INDEX
     = (Inr \<lparr>downloaded = True, size_compressed = PInt 2170758745\<rparr>, tuned_controller) \<and>
   check_downloaded demo_env ''no-such-index'' = Inl (KeyError ''no-such-index'') \<and>
   get_status demo_env tuned_controller ''no-such-index''
     = (Inl (KeyError ''no-such-index''), tuned_controller)"
proof -
  let ?h = "''beir-v1.0.0-nfcorpus.bge-base-en-v1.5.hnsw''"
  let ?e = "[(''description'', PStr ''MS MARCO passages''), (size_key, PInt 2170758745)]"
  have h1: "TF_INDEX_INFO demo_env ?h = None"
    by (simp add: demo_env_def DEFAULT_INDEX_def)
  have h2: "LUCENE_HNSW_INDEX_INFO demo_env ?h = Some [(size_key, PInt 13000000)]"
    by (simp add: demo_env_def)
  have h3: "TF_INDEX_INFO demo_env DEFAULT_INDEX = Some ?e"
    by (simp add: demo_env_def)
  have h4: "map_of ?e size_key = Some (PInt 2170758745)"
    by (simp add: size_key_def)
  have d1: "check_downloaded demo_env ?h = Inr False"
    by (simp add: demo_env_def DEFAULT_INDEX_def)
  have d2: "check_downloaded demo_env DEFAULT_INDEX = Inr True"
    by (simp add: demo_env_def)
  have d3: "check_downloaded demo_env ''no-such-index'' = Inl (KeyError ''no-such-index'')"
    by (simp add: demo_env_def DEFAULT_INDEX_def)
  have t1: "get_status demo_env tuned_controller ?h
     = (Inr \<lparr>downloaded = False, size_compressed = PStr ''Not available''\<rparr>, tuned_controller)"
    using get_status_size [of demo_env ?h False tuned_controller "[]" PNone TypeError] h1 d1
    by simp
  have t2: "get_status demo_env tuned_controller DEFAULT_INDEX
     = (Inr \<lparr>downloaded = True, size_compressed = PInt 2170758745\<rparr>, tuned_controller)"
    using get_status_size
            [of demo_env DEFAULT_INDEX True tuned_controller ?e "PInt 2170758745" TypeError]
          h3 h4 d2
    by simp
  have t3: "get_status demo_env tuned_controller ''no-such-index''
     = (Inl (KeyError ''no-such-index''), tuned_controller)"
    using get_status_size
            [of demo_env "''no-such-index''" True tuned_controller "[]" PNone
                "KeyError ''no-such-index''"] d3
    by simp
  from d1 h1 h2 t1 d2 h3 h4 t2 d3 t3 show ?thesis by (intro conjI)
qed

subsection \<open>Updating the settings\<close>

lemma demo_int_wide: "builtin_int demo_env ''wide'' = None"
  by (simp add: demo_env_def)

lemma demo_int_200: "builtin_int demo_env ''200'' = Some 200"
  by (simp add: demo_env_def)

lemma update_settings_ok:
  assumes "indexes c n = Some cfg" and "\<forall>s. ef = Some s \<longrightarrow> builtin_int E s \<noteq> None"
  shows "update_settings E c n ef enc qg =
           (Inr (), c\<lparr>indexes := (indexes c)(n \<mapsto>
              cfg\<lparr>ef_search := (case ef of None \<Rightarrow> ef_search cfg | Some s \<Rightarrow> builtin_int E s),
                  encoder := (case enc of None \<Rightarrow> encoder cfg | Some x \<Rightarrow> Some x),
                  query_generator := (case qg of None \<Rightarrow> query_generator cfg | Some x \<Rightarrow> Some x)\<rparr>)\<rparr>)"
  using assms
  by (cases ef; cases enc; cases qg) (auto simp: update_settings_def)

lemma update_settings_bad:
  assumes "indexes c n = Some cfg" and "builtin_int E s = None"
  shows "update_settings E c n (Some s) enc qg = (Inl (InvalidLiteral s), c)"
  using assms by (simp add: update_settings_def)

text \<open>
  Claim C5, as stated, at a search width that is not an integer literal. The handle
  of \<open>tuned_controller\<close> exists; \<open>update_settings\<close> is given the search width \<open>wide\<close>
  and the encoder \<open>X\<close>. \<open>int('wide')\<close> raises before any field is assigned, so the
  provided encoder does not overwrite the handle's: a following \<open>get_settings\<close>
  still shows \<open>bm25\<close>.
\<close>

theorem update_settings_refused_width_counterexample:
  "indexes tuned_controller DEFAULT_INDEX \<noteq> None \<and>
   update_settings demo_env tuned_controller DEFAULT_INDEX (Some ''wide'') (Some ''X'') None
     = (Inl (InvalidLiteral ''wide''), tuned_controller) \<and>
   fst (get_settings (snd (update_settings demo_env tuned_controller DEFAULT_INDEX (Some ''wide'') (Some ''X'') None))
          DEFAULT_INDEX)
     = Inr [(''efSearch'', IntSetting 100), (''encoder'', StrSetting ''bm25''),
            (''queryGenerator'', StrSetting ''rm3'')]"
proof -
  have i: "indexes tuned_controller DEFAULT_INDEX
             = Some \<lparr>name = DEFAULT_INDEX, searcher = Some DEFAULT_INDEX,
                     ef_search = Some 100, encoder = Some ''bm25'', query_generator = Some ''rm3''\<rparr>"
    by (simp add: tuned_controller_def)
  have u: "update_settings demo_env tuned_controller DEFAULT_INDEX (Some ''wide'') (Some ''X'') None
             = (Inl (InvalidLiteral ''wide''), tuned_controller)"
    by (simp add: update_settings_def i demo_int_wide)
  have g: "fst (get_settings tuned_controller DEFAULT_INDEX)
             = Inr [(''efSearch'', IntSetting 100), (''encoder'', StrSetting ''bm25''),
                    (''queryGenerator'', StrSetting ''rm3'')]"
    by (simp add: get_settings_def i settings_of_def)
  show ?thesis using i u g by simp
qed

text \<open>
  Claim C5, amended. For a name that has a handle: when the search width given, if
  any, is text that \<open>int()\<close> accepts, \<open>update_settings\<close> succeeds and replaces the
  handle by one in which each provided field has the provided value (the search
  width its integer value) and every other field, the three settings not provided
  and \<open>name\<close> and \<open>searcher\<close>, is as before; no other entry of the
  registry changes, and a following \<open>get_settings\<close> returns the settings of that
  handle. When the search width given is text that \<open>int()\<close> refuses, the call raises
  the \<open>ValueError\<close> of \<open>int()\<close> and the controller is unchanged.
\<close>

theorem update_settings_partial:
  assumes "indexes c n = Some cfg"
  shows "((\<forall>s. ef = Some s \<longrightarrow> builtin_int E s \<noteq> None) \<longrightarrow>
            (\<exists>cfg'. update_settings E c n ef enc qg = (Inr (), c\<lparr>indexes := (indexes c)(n \<mapsto> cfg')\<rparr>) \<and>
               ef_search cfg' = (case ef of None \<Rightarrow> ef_search cfg | Some s \<Rightarrow> builtin_int E s) \<and>
               encoder cfg' = (case enc of None \<Rightarrow> encoder cfg | Some x \<Rightarrow> Some x) \<and>
               query_generator cfg' = (case qg of None \<Rightarrow> query_generator cfg | Some x \<Rightarrow> Some x) \<and>
               name cfg' = name cfg \<and> searcher cfg' = searcher cfg \<and>
               get_settings (snd (update_settings E c n ef enc qg)) n
                 = (Inr (settings_of cfg'), snd (update_settings E c n ef enc qg))))
       \<and> (\<forall>s. ef = Some s \<and> builtin_int E s = None \<longrightarrow>
             update_settings E c n ef enc qg = (Inl (InvalidLiteral s), c))"
proof (intro conjI impI allI)
  assume ok: "\<forall>s. ef = Some s \<longrightarrow> builtin_int E s \<noteq> None"
  let ?cfg' = "cfg\<lparr>ef_search := (case ef of None \<Rightarrow> ef_search cfg | Some s \<Rightarrow> builtin_int E s),
                  encoder := (case enc of None \<Rightarrow> encoder cfg | Some x \<Rightarrow> Some x),
                  query_generator := (case qg of None \<Rightarrow> query_generator cfg | Some x \<Rightarrow> Some x)\<rparr>"
  have u: "update_settings E c n ef enc qg = (Inr (), c\<lparr>indexes := (indexes c)(n \<mapsto> ?cfg')\<rparr>)"
    by (rule update_settings_ok [OF assms ok])
  have g: "get_settings (snd (update_settings E c n ef enc qg)) n
             = (Inr (settings_of ?cfg'), snd (update_settings E c n ef enc qg))"
    by (simp add: u get_settings_def)
  show "\<exists>cfg'. update_settings E c n ef enc qg = (Inr (), c\<lparr>indexes := (indexes c)(n \<mapsto> cfg')\<rparr>) \<and>
               ef_search cfg' = (case ef of None \<Rightarrow> ef_search cfg | Some s \<Rightarrow> builtin_int E s) \<and>
               encoder cfg' = (case enc of None \<Rightarrow> encoder cfg | Some x \<Rightarrow> Some x) \<and>
               query_generator cfg' = (case qg of None \<Rightarrow> query_generator cfg | Some x \<Rightarrow> Some x) \<and>
               name cfg' = name cfg \<and> searcher cfg' = searcher cfg \<and>
               get_settings (snd (update_settings E c n ef enc qg)) n
                 = (Inr (settings_of cfg'), snd (update_settings E c n ef enc qg))"
    by (rule exI [of _ ?cfg']) (simp add: u get_settings_def)
next
  fix s assume "ef = Some s \<and> builtin_int E s = None"
  then show "update_settings E c n ef enc qg = (Inl (InvalidLiteral s), c)"
    using update_settings_bad [OF assms, of E s enc qg] by simp
qed

theorem update_settings_partial_witness:
  "indexes tuned_controller DEFAULT_INDEX
     = Some \<lparr>name = DEFAULT_INDEX, searcher = Some DEFAULT_INDEX,
             ef_search = Some 100, encoder = Some ''bm25'', query_generator = Some ''rm3''\<rparr> \<and>
   builtin_int demo_env ''200'' = Some 200 \<and> builtin_int demo_env ''wide'' = None \<and>
   fst (get_settings (snd (update_settings demo_env tuned_controller DEFAULT_INDEX None (Some ''X'') None))
          DEFAULT_INDEX)
     = Inr [(''efSearch'', IntSetting 100), (''encoder'', StrSetting ''X''),
            (''queryGenerator'', StrSetting ''rm3'')] \<and>
   fst (get_settings (snd (update_settings demo_env tuned_controller DEFAULT_INDEX (Some ''200'') None None))
          DEFAULT_INDEX)
     = Inr [(''efSearch'', IntSetting 200), (''encoder'', StrSetting ''bm25''),
            (''queryGenerator'', StrSetting ''rm3'')] \<and>
   update_settings demo_env tuned_controller DEFAULT_INDEX (Some ''wide'') (Some ''X'') None
     = (Inl (InvalidLiteral ''wide''), tuned_controller)"
proof -
  let ?cfg = "\<lparr>name = DEFAULT_INDEX, searcher = Some DEFAULT_INDEX,
               ef_search = Some 100, encoder = Some ''bm25'', query_generator = Some ''rm3''\<rparr>"
  have i: "indexes tuned_controller DEFAULT_INDEX = Some ?cfg"
    by (simp add: tuned_controller_def)
  have a: "fst (get_settings (snd (update_settings demo_env tuned_controller DEFAULT_INDEX None (Some ''X'') None))
              DEFAULT_INDEX)
        = Inr [(''efSearch'', IntSetting 100), (''encoder'', StrSetting ''X''),
               (''queryGenerator'', StrSetting ''rm3'')]"
  proof -
    show ?thesis
      using update_settings_partial
              [OF i, where E = demo_env and ef = None and enc = "Some ''X''" and qg = None]
      by (auto simp: settings_of_def)
  qed
  have b: "fst (get_settings (snd (update_settings demo_env tuned_controller DEFAULT_INDEX (Some ''200'') None None))
              DEFAULT_INDEX)
        = Inr [(''efSearch'', IntSetting 200), (''encoder'', StrSetting ''bm25''),
               (''queryGenerator'', StrSetting ''rm3'')]"
  proof -
    show ?thesis
      using update_settings_partial
              [OF i, where E = demo_env and ef = "Some ''200''" and enc = None and qg = None]
            demo_int_200
      by (auto simp: settings_of_def)
  qed
  have d: "update_settings demo_env tuned_controller DEFAULT_INDEX (Some ''wide'') (Some ''X'') None
             = (Inl (InvalidLiteral ''wide''), tuned_controller)"
    using update_settings_partial
            [OF i, where E = demo_env and ef = "Some ''wide''" and enc = "Some ''X''" and qg = None]
          demo_int_wide
    by simp
  from i demo_int_200 demo_int_wide a b d show ?thesis by (intro conjI)
qed

subsection \<open>Fetching a document\<close>

lemma get_document_loaded:
  assumes "indexes c n = Some cfg" and "searcher cfg = Some b"
  shows "get_document E c d n = (document_of E b d n, c)"
  using assms by (simp add: get_document_def)

lemma get_document_lazy:
  assumes "indexes c n = Some cfg" and "searcher cfg = None"
    and "lucene_from_prebuilt_index E (name cfg) = Inr (Some b)"
  shows "fst (get_document E c d n) = document_of E b d n"
  using assms by (simp add: get_document_def Let_def)

lemma get_document_with_backend:
  assumes "indexes c n = Some cfg"
    and "searcher cfg = Some b \<or> (searcher cfg = None \<and> lucene_from_prebuilt_index E (name cfg) = Inr (Some b))"
  shows "fst (get_document E c d n) = document_of E b d n"
  using assms get_document_loaded [of c n cfg b E d] get_document_lazy [of c n cfg E b d]
  by auto

lemma document_of_not_found:
  "document_of E b d n = Inl (ValueError (not_found_msg d n)) \<longleftrightarrow> searcher_doc E b d = Inr None"
proof (cases "searcher_doc E b d")
  case (Inl e)
  then show ?thesis by (simp add: document_of_def)
next
  case (Inr x)
  show ?thesis
  proof (cases x)
    case None
    then show ?thesis using Inr by (simp add: document_of_def)
  next
    case (Some y)
    show ?thesis
    proof (cases y)
      case None
      then show ?thesis using Inr Some by (simp add: document_of_def)
    next
      case (Some r)
      have "subscript v ''contents'' \<noteq> Inl (ValueError m)" for v m
        by (simp add: subscript_def split: pyval.splits option.splits)
      then show ?thesis
        using Inr \<open>x = Some y\<close> Some
        by (auto simp: document_of_def split: option.split sum.split)
    qed
  qed
qed

text \<open>
  Claim C8. For a name whose handle has a searcher, or has none and gets one from
  \<open>LuceneSearcher.from_prebuilt_index\<close>: \<open>get_document\<close> raises the \<open>ValueError\<close>
  "Document '...' not found in index '...'" exactly when the searcher's \<open>doc\<close> returns
  \<open>None\<close>; and when \<open>doc\<close> returns a document whose raw payload parses to a
  dictionary with the key \<open>contents\<close>, \<open>get_document\<close> returns the document id it was
  given with, as text, the value under \<open>contents\<close>.
\<close>

theorem get_document_not_found_iff:
  assumes "indexes c n = Some cfg"
    and "searcher cfg = Some b \<or> (searcher cfg = None \<and> lucene_from_prebuilt_index E (name cfg) = Inr (Some b))"
  shows "(fst (get_document E c d n) = Inl (ValueError (not_found_msg d n))
            \<longleftrightarrow> searcher_doc E b d = Inr None)
       \<and> (searcher_doc E b d = Inr (Some (Some r)) \<and> json_loads E r = Some (PDict kvs) \<and>
             map_of kvs ''contents'' = Some t
            \<longrightarrow> fst (get_document E c d n) = Inr \<lparr>doc_docid = d, doc_text = t\<rparr>)"
proof -
  note g = get_document_with_backend [OF assms, of d]
  have 1: "fst (get_document E c d n) = Inl (ValueError (not_found_msg d n))
            \<longleftrightarrow> searcher_doc E b d = Inr None"
    unfolding g by (rule document_of_not_found)
  have 2: "searcher_doc E b d = Inr (Some (Some r)) \<and> json_loads E r = Some (PDict kvs) \<and>
             map_of kvs ''contents'' = Some t
            \<longrightarrow> fst (get_document E c d n) = Inr \<lparr>doc_docid = d, doc_text = t\<rparr>"
    unfolding g by (simp add: document_of_def subscript_def)
  show ?thesis using 1 2 by (rule conjI)
qed



theorem get_document_not_found_iff_witness:
  "indexes tuned_controller DEFAULT_INDEX
     = Some \<lparr>name = DEFAULT_INDEX, searcher = Some DEFAULT_INDEX,
             ef_search = Some 100, encoder = Some ''bm25'', query_generator = Some ''rm3''\<rparr> \<and>
   searcher_doc demo_env DEFAULT_INDEX ''d2'' = Inr None \<and>
   fst (get_document demo_env tuned_controller ''d2'' DEFAULT_INDEX)
     = Inl (ValueError (not_found_msg ''d2'' DEFAULT_INDEX)) \<and>
   searcher_doc demo_env DEFAULT_INDEX ''d1'' = Inr (Some (Some hello_payload)) \<and>
   json_loads demo_env hello_payload = Some (PDict [(''contents'', PStr ''hello world'')]) \<and>
   map_of [(''contents'', PStr ''hello world'')] ''contents'' = Some (PStr ''hello world'') \<and>
   fst (get_document demo_env tuned_controller ''d1'' DEFAULT_INDEX)
     = Inr \<lparr>doc_docid = ''d1'', doc_text = PStr ''hello world''\<rparr>"
proof -
  let ?cfg = "\<lparr>name = DEFAULT_INDEX, searcher = Some DEFAULT_INDEX,
               ef_search = Some 100, encoder = Some ''bm25'', query_generator = Some ''rm3''\<rparr>"
  have i: "indexes tuned_controller DEFAULT_INDEX = Some ?cfg"
    by (simp add: tuned_controller_def)
  have b: "searcher ?cfg = Some DEFAULT_INDEX \<or>
           (searcher ?cfg = None \<and>
            lucene_from_prebuilt_index demo_env (name ?cfg) = Inr (Some DEFAULT_INDEX))"
    by simp
  have d2: "searcher_doc demo_env DEFAULT_INDEX ''d2'' = Inr None"
    by (simp add: demo_env_def)
  have d1: "searcher_doc demo_env DEFAULT_INDEX ''d1'' = Inr (Some (Some hello_payload))"
    by (simp add: demo_env_def)
  have j: "json_loads demo_env hello_payload = Some (PDict [(''contents'', PStr ''hello world'')])"
    by (simp add: demo_env_def)
  have m: "map_of [(''contents'', PStr ''hello world'')] ''contents'' = Some (PStr ''hello world'')"
    by simp
  have t2: "fst (get_document demo_env tuned_controller ''d2'' DEFAULT_INDEX)
              = Inl (ValueError (not_found_msg ''d2'' DEFAULT_INDEX))"
    using get_document_not_found_iff [OF i b, of "''d2''"] d2 by blast
  have t1: "fst (get_document demo_env tuned_controller ''d1'' DEFAULT_INDEX)
              = Inr \<lparr>doc_docid = ''d1'', doc_text = PStr ''hello world''\<rparr>"
    using get_document_not_found_iff
            [OF i b, of "''d1''" hello_payload "[(''contents'', PStr ''hello world'')]"
               "PStr ''hello world''"] d1 j m
    by blast
  from i d2 t2 d1 j m t1 show ?thesis by (intro conjI)
qed

subsection \<open>Searching a name that is already loaded\<close>

lemma ensure_loaded:
  assumes "indexes c n = Some cfg" and "searcher cfg = Some b"
  shows "ensure E c n made = (Inr cfg, c)"
  using assms by (simp add: ensure_def)

lemma add_index_ok_indexes:
  assumes "add_index E c config = (Inr r, c')"
  shows "indexes c' = (indexes c)(name config \<mapsto> r)"
  using assms
  by (auto simp: add_index_def store_def log_def Let_def split: if_splits sum.splits)

lemma provision_ok_registered:
  assumes "provision E c made = (Inr cfg, c1)" and "\<forall>fresh. made = Inr fresh \<longrightarrow> name fresh = n"
  shows "indexes c1 n = Some cfg"
proof (cases made)
  case (Inl e)
  then show ?thesis using assms(1) by (simp add: provision_def)
next
  case (Inr fresh)
  then have "add_index E c fresh = (Inr cfg, c1)" using assms(1) by (simp add: provision_def)
  from add_index_ok_indexes [OF this] assms(2) Inr show ?thesis by simp
qed

lemma ensure_ok_registered:
  assumes "ensure E c n made = (Inr cfg, c1)" and "\<forall>fresh. made = Inr fresh \<longrightarrow> name fresh = n"
  shows "indexes c1 n = Some cfg"
proof (cases "indexes c n")
  case None
  then have "provision E c made = (Inr cfg, c1)" using assms(1) by (simp add: ensure_def)
  then show ?thesis using assms(2) by (rule provision_ok_registered)
next
  case (Some old)
  show ?thesis
  proof (cases "searcher old")
    case None
    then have "provision E c made = (Inr cfg, c1)" using assms(1) Some by (simp add: ensure_def)
    then show ?thesis using assms(2) by (rule provision_ok_registered)
  next
    case (Some b)
    then show ?thesis using assms(1) \<open>indexes c n = Some old\<close> by (simp add: ensure_def)
  qed
qed

lemma IndexConfig_init_name: "IndexConfig_init n pk ef enc qg = Inr fresh \<Longrightarrow> name fresh = n"
  by (cases pk) (auto simp: IndexConfig_init_def new_config_def)

lemma search_after_ensure:
  assumes "ensure E c n (IndexConfig_init n (Some n) ef enc qg) = (Inr cfg, c1)"
    and "searcher cfg = Some b"
  shows "snd (search E c q n k qid ef enc qg) = log (SearchCall b q k) c1"
  using assms by (simp add: search_def Let_def split: sum.split)

lemma search_loaded_state:
  assumes "indexes c n = Some cfg" and "searcher cfg = Some b"
  shows "snd (search E c q n k qid ef enc qg) = log (SearchCall b q k) c"
  using search_after_ensure [OF ensure_loaded [OF assms] assms(2)] .

lemma search_ok_loaded:
  assumes "fst (search E c q n k qid ef enc qg) = Inr r"
  shows "\<exists>cfg b. indexes (snd (search E c q n k qid ef enc qg)) n = Some cfg \<and> searcher cfg = Some b"
proof -
  obtain r0 c1 where e: "ensure E c n (IndexConfig_init n (Some n) ef enc qg) = (r0, c1)"
    by (cases "ensure E c n (IndexConfig_init n (Some n) ef enc qg)")
  show ?thesis
  proof (cases r0)
    case (Inl err)
    then show ?thesis using assms e by (simp add: search_def)
  next
    case (Inr cfg)
    show ?thesis
    proof (cases "searcher cfg")
      case None
      then show ?thesis using assms e Inr by (simp add: search_def)
    next
      case (Some b)
      have "\<forall>fresh. IndexConfig_init n (Some n) ef enc qg = Inr fresh \<longrightarrow> name fresh = n"
        using IndexConfig_init_name by blast
      from ensure_ok_registered [OF e [unfolded Inr] this]
      have "indexes c1 n = Some cfg" .
      moreover have "snd (search E c q n k qid ef enc qg) = log (SearchCall b q k) c1"
        using search_after_ensure [OF e [unfolded Inr] Some] .
      ultimately show ?thesis using Some by (simp add: log_def)
    qed
  qed
qed

text \<open>
  For a name without a loaded handle, \<open>search\<close> gets no further than the constructor
  call \<open>IndexConfig(name=..., path=..., ...)\<close>: the \<open>TypeError\<close> of the keyword \<open>path\<close> is
  raised before \<open>add_index\<close> is entered, and the controller is untouched.
\<close>

lemma search_unloaded:
  assumes "indexes c n = None \<or> (\<exists>cfg. indexes c n = Some cfg \<and> searcher cfg = None)"
  shows "search E c q n k qid ef enc qg = (Inl TypeError, c)"
  using assms
  by (auto simp: search_def ensure_def provision_def IndexConfig_init_def)

lemma shard_hits_default:
  "shard_hits DEFAULT_INDEX = [\<lparr>hit_docid = ''d1'', hit_score = 2, hit_raw = Some hello_payload\<rparr>]"
  by (simp add: shard_hits_def SHARDS_list DEFAULT_INDEX_def)

lemma default_index_loaded:
  "initialize_default_index demo_env init_controller DEFAULT_INDEX = (Inr (), loaded_controller)"
proof -
  have a: "add_index demo_env init_controller (new_config DEFAULT_INDEX None None None)
             = (Inr \<lparr>name = DEFAULT_INDEX, searcher = Some DEFAULT_INDEX,
                    ef_search = None, encoder = None, query_generator = None\<rparr>,
                loaded_controller)"
    using default_not_shard
    by (simp add: add_index_def new_config_def demo_env_def init_controller_def log_def store_def
                  loaded_controller_def)
  have t: "TF_INDEX_INFO demo_env DEFAULT_INDEX \<noteq> None" by (simp add: demo_env_def)
  show ?thesis
    using t by (simp add: initialize_default_index_def IndexConfig_init_def a)
qed

lemma first_search:
  "search demo_env loaded_controller ''q'' DEFAULT_INDEX 10 ''1'' None None None
     = (Inr first_response, log (SearchCall DEFAULT_INDEX ''q'' 10) loaded_controller)"
proof -
  have e: "ensure demo_env loaded_controller DEFAULT_INDEX
             (IndexConfig_init DEFAULT_INDEX (Some DEFAULT_INDEX) None None None)
           = (Inr \<lparr>name = DEFAULT_INDEX, searcher = Some DEFAULT_INDEX,
                    ef_search = None, encoder = None, query_generator = None\<rparr>,
              loaded_controller)"
    by (rule ensure_loaded) (simp_all add: loaded_controller_def)
  have s: "searcher_search demo_env DEFAULT_INDEX ''q'' 10
             = Inr [\<lparr>hit_docid = ''d1'', hit_score = 2, hit_raw = Some hello_payload\<rparr>]"
    by (simp add: demo_env_def shard_hits_default)
  have j: "json_loads demo_env hello_payload = Some (PDict [(''contents'', PStr ''hello world'')])"
    by (simp add: demo_env_def)
  show ?thesis
    by (simp add: search_def e s j subscript_def first_response_def)
qed

text \<open>
  Claim C3. When the registry holds, for the name searched, a handle with a
  searcher, \<open>search\<close> leaves the registry exactly as it was and makes one call to
  a collaborator, the \<open>search\<close> of that handle's searcher: no \<open>from_prebuilt_index\<close>
  is called. In particular, after a \<open>search\<close> that returned a response, a second
  \<open>search\<close> for the same name (with any query, \<open>k\<close> and settings) leaves the registry
  as the first call left it and adds to the trace nothing but its own searcher
  call.
\<close>

theorem search_reuses_loaded_handle:
  "(indexes c n = Some cfg \<and> searcher cfg = Some b \<longrightarrow>
      indexes (snd (search E c q n k qid ef enc qg)) = indexes c \<and>
      trace (snd (search E c q n k qid ef enc qg)) = trace c @ [SearchCall b q k])
   \<and> (fst (search E c q n k qid ef enc qg) = Inr r \<longrightarrow>
        (\<exists>b'. indexes (snd (search E (snd (search E c q n k qid ef enc qg)) q' n k' qid' ef' enc' qg'))
                = indexes (snd (search E c q n k qid ef enc qg)) \<and>
              trace (snd (search E (snd (search E c q n k qid ef enc qg)) q' n k' qid' ef' enc' qg'))
                = trace (snd (search E c q n k qid ef enc qg)) @ [SearchCall b' q' k']))"
proof (intro conjI impI)
  assume a: "indexes c n = Some cfg \<and> searcher cfg = Some b"
  have "snd (search E c q n k qid ef enc qg) = log (SearchCall b q k) c"
    by (rule search_loaded_state [OF conjunct1 [OF a] conjunct2 [OF a]])
  then show "indexes (snd (search E c q n k qid ef enc qg)) = indexes c"
    and "trace (snd (search E c q n k qid ef enc qg)) = trace c @ [SearchCall b q k]"
    by (simp_all add: log_def)
next
  assume "fst (search E c q n k qid ef enc qg) = Inr r"
  from search_ok_loaded [OF this]
  obtain cfg1 b1 where l: "indexes (snd (search E c q n k qid ef enc qg)) n = Some cfg1"
    "searcher cfg1 = Some b1" by blast
  have "snd (search E (snd (search E c q n k qid ef enc qg)) q' n k' qid' ef' enc' qg')
          = log (SearchCall b1 q' k') (snd (search E c q n k qid ef enc qg))"
    by (rule search_loaded_state [OF l])
  then show "\<exists>b'. indexes (snd (search E (snd (search E c q n k qid ef enc qg)) q' n k' qid' ef' enc' qg'))
                = indexes (snd (search E c q n k qid ef enc qg)) \<and>
              trace (snd (search E (snd (search E c q n k qid ef enc qg)) q' n k' qid' ef' enc' qg'))
                = trace (snd (search E c q n k qid ef enc qg)) @ [SearchCall b' q' k']"
    by (simp add: log_def)
qed

theorem search_reuses_loaded_handle_witness:
  "initialize_default_index demo_env init_controller DEFAULT_INDEX = (Inr (), loaded_controller) \<and>
   indexes loaded_controller DEFAULT_INDEX
     = Some \<lparr>name = DEFAULT_INDEX, searcher = Some DEFAULT_INDEX,
             ef_search = None, encoder = None, query_generator = None\<rparr> \<and>
   fst (search demo_env loaded_controller ''q'' DEFAULT_INDEX 10 ''1'' None None None)
     = Inr first_response \<and>
   indexes (snd (search demo_env loaded_controller ''q'' DEFAULT_INDEX 10 ''1'' None None None))
     = indexes loaded_controller \<and>
   trace (snd (search demo_env loaded_controller ''q'' DEFAULT_INDEX 10 ''1'' None None None))
     = [LoadLucene DEFAULT_INDEX, SearchCall DEFAULT_INDEX ''q'' 10] \<and>
   (\<exists>b. indexes (snd (search demo_env
                      (snd (search demo_env loaded_controller ''q'' DEFAULT_INDEX 10 ''1'' None None None))
                      ''again'' DEFAULT_INDEX 5 ''2'' (Some 7) None None))
          = indexes loaded_controller \<and>
        trace (snd (search demo_env
                      (snd (search demo_env loaded_controller ''q'' DEFAULT_INDEX 10 ''1'' None None None))
                      ''again'' DEFAULT_INDEX 5 ''2'' (Some 7) None None))
          = [LoadLucene DEFAULT_INDEX, SearchCall DEFAULT_INDEX ''q'' 10, SearchCall b ''again'' 5])"
proof -
  let ?cfg = "\<lparr>name = DEFAULT_INDEX, searcher = Some DEFAULT_INDEX,
               ef_search = None, encoder = None, query_generator = None\<rparr>"
  let ?s1 = "search demo_env loaded_controller ''q'' DEFAULT_INDEX 10 ''1'' None None None"
  have h2: "indexes loaded_controller DEFAULT_INDEX = Some ?cfg \<and> searcher ?cfg = Some DEFAULT_INDEX"
    by (simp add: loaded_controller_def)
  then have i: "indexes loaded_controller DEFAULT_INDEX = Some ?cfg" by simp
  have h1: "fst ?s1 = Inr first_response" by (simp add: first_search)
  have t: "trace loaded_controller = [LoadLucene DEFAULT_INDEX]"
    by (simp add: loaded_controller_def)
  note T = search_reuses_loaded_handle
             [of loaded_controller DEFAULT_INDEX ?cfg DEFAULT_INDEX demo_env "''q''" 10 "''1''"
                 None None None first_response "''again''" 5 "''2''" "Some 7" None None]
  from T h2 have a: "indexes (snd ?s1) = indexes loaded_controller"
    and b: "trace (snd ?s1) = trace loaded_controller @ [SearchCall DEFAULT_INDEX ''q'' 10]"
    by blast+
  have b2: "trace (snd ?s1) = [LoadLucene DEFAULT_INDEX, SearchCall DEFAULT_INDEX ''q'' 10]"
    using b by (simp add: t)
  from T h1 obtain b' where
    c: "indexes (snd (search demo_env (snd ?s1) ''again'' DEFAULT_INDEX 5 ''2'' (Some 7) None None))
          = indexes (snd ?s1)"
       "trace (snd (search demo_env (snd ?s1) ''again'' DEFAULT_INDEX 5 ''2'' (Some 7) None None))
          = trace (snd ?s1) @ [SearchCall b' ''again'' 5]"
    by blast
  have c': "\<exists>b. indexes (snd (search demo_env (snd ?s1) ''again'' DEFAULT_INDEX 5 ''2'' (Some 7) None None))
          = indexes loaded_controller \<and>
        trace (snd (search demo_env (snd ?s1) ''again'' DEFAULT_INDEX 5 ''2'' (Some 7) None None))
          = [LoadLucene DEFAULT_INDEX, SearchCall DEFAULT_INDEX ''q'' 10, SearchCall b ''again'' 5]"
    using c a b2 by simp
  from default_index_loaded i h1 a b2 c' show ?thesis by (intro conjI)
qed

subsection \<open>The shard tasks\<close>

lemma shard_config:
  "IndexConfig_init sh None (Some ef) (Some enc) None = Inr (new_config sh (Some ef) (Some enc) None)"
  by (simp add: IndexConfig_init_def)

lemma add_index_elsewhere:
  "m \<noteq> name config \<Longrightarrow> indexes (snd (add_index E c config)) m = indexes c m"
  by (simp add: add_index_def store_def log_def Let_def split: sum.split)

lemma add_index_result_state_free:
  "fst (add_index E c1 config) = fst (add_index E c2 config)"
  by (simp add: add_index_def Let_def split: sum.split)

lemma ensure_elsewhere:
  "m \<noteq> name fresh \<Longrightarrow> indexes (snd (ensure E c n (Inr fresh))) m = indexes c m"
  by (simp add: ensure_def provision_def add_index_elsewhere split: option.split)

lemma ensure_result_cong:
  "indexes c1 n = indexes c2 n \<Longrightarrow>
   fst (ensure E c1 n (Inr fresh)) = fst (ensure E c2 n (Inr fresh))"
  using add_index_result_state_free [of E c1 fresh c2]
  by (simp add: ensure_def provision_def split: option.split)

lemma task_unfold:
  assumes "ensure E c sh (Inr (new_config sh (Some ef) (Some enc) None)) = (r0, c1)"
  shows "fst (search_single_shard E c sh q k ef enc) = task_tail E r0 q k"
    and "snd (search_single_shard E c sh q k ef enc)
           = (case r0 of
                Inl e \<Rightarrow> c1
              | Inr cfg \<Rightarrow> (case searcher cfg of None \<Rightarrow> c1 | Some b \<Rightarrow> log (SearchCall b q k) c1))"
proof -
  show "fst (search_single_shard E c sh q k ef enc) = task_tail E r0 q k"
  proof (cases r0)
    case (Inl e)
    then show ?thesis
      using assms by (simp add: search_single_shard_def task_tail_def shard_config)
  next
    case (Inr cfg)
    show ?thesis
    proof (cases "searcher cfg")
      case None
      then show ?thesis
        using assms Inr by (simp add: search_single_shard_def task_tail_def shard_config)
    next
      case (Some b)
      then show ?thesis
        using assms Inr
        by (cases "searcher_search E b q k")
           (simp_all add: search_single_shard_def task_tail_def shard_config)
    qed
  qed
  show "snd (search_single_shard E c sh q k ef enc)
           = (case r0 of
                Inl e \<Rightarrow> c1
              | Inr cfg \<Rightarrow> (case searcher cfg of None \<Rightarrow> c1 | Some b \<Rightarrow> log (SearchCall b q k) c1))"
  proof (cases r0)
    case (Inl e)
    then show ?thesis using assms by (simp add: search_single_shard_def shard_config)
  next
    case (Inr cfg)
    show ?thesis
    proof (cases "searcher cfg")
      case None
      then show ?thesis using assms Inr by (simp add: search_single_shard_def shard_config)
    next
      case (Some b)
      then show ?thesis
        using assms Inr
        by (cases "searcher_search E b q k") (simp_all add: search_single_shard_def shard_config)
    qed
  qed
qed

lemma task_result:
  "fst (search_single_shard E c sh q k ef enc)
     = task_tail E (fst (ensure E c sh (Inr (new_config sh (Some ef) (Some enc) None)))) q k"
  using task_unfold(1) [of E c sh ef enc] by (metis prod.collapse)

lemma task_state:
  "indexes (snd (search_single_shard E c sh q k ef enc))
     = indexes (snd (ensure E c sh (Inr (new_config sh (Some ef) (Some enc) None))))"
proof -
  obtain r0 c1 where e: "ensure E c sh (Inr (new_config sh (Some ef) (Some enc) None)) = (r0, c1)"
    by (cases "ensure E c sh (Inr (new_config sh (Some ef) (Some enc) None))")
  show ?thesis
    unfolding task_unfold(2) [OF e] e
    by (simp add: log_def split: sum.split option.split)
qed

lemma task_elsewhere:
  "m \<noteq> sh \<Longrightarrow> indexes (snd (search_single_shard E c sh q k ef enc)) m = indexes c m"
  by (simp add: task_state ensure_elsewhere new_config_def)

lemma task_result_cong:
  "indexes c1 sh = indexes c2 sh \<Longrightarrow>
   fst (search_single_shard E c1 sh q k ef enc) = fst (search_single_shard E c2 sh q k ef enc)"
  using ensure_result_cong [of c1 sh c2 E "new_config sh (Some ef) (Some enc) None"]
  by (simp add: task_result)

lemma run_tasks_results:
  "distinct order \<Longrightarrow>
   fst (run_tasks E c order q k ef enc) = map (\<lambda>sh. fst (search_single_shard E c sh q k ef enc)) order"
proof (induction order arbitrary: c)
  case Nil
  then show ?case by simp
next
  case (Cons sh rest)
  obtain r c1 where t: "search_single_shard E c sh q k ef enc = (r, c1)"
    by (cases "search_single_shard E c sh q k ef enc")
  obtain rs c2 where u: "run_tasks E c1 rest q k ef enc = (rs, c2)"
    by (cases "run_tasks E c1 rest q k ef enc")
  have "rs = map (\<lambda>s. fst (search_single_shard E c1 s q k ef enc)) rest"
    using Cons.IH [of c1] Cons.prems u by simp
  also have "\<dots> = map (\<lambda>s. fst (search_single_shard E c s q k ef enc)) rest"
  proof (rule map_cong [OF refl])
    fix s assume "s \<in> set rest"
    then have "s \<noteq> sh" using Cons.prems by auto
    then have "indexes c1 s = indexes c s"
      using task_elsewhere [of s sh E c q k ef enc] t by simp
    then show "fst (search_single_shard E c1 s q k ef enc) = fst (search_single_shard E c s q k ef enc)"
      by (rule task_result_cong)
  qed
  finally show ?case using t u by simp
qed

lemma collect_all_ok:
  "\<forall>r \<in> set rs. \<exists>xs. r = Inr xs \<Longrightarrow> collect acc rs = Inr (acc @ concat (map projr rs))"
proof (induction rs arbitrary: acc)
  case Nil
  then show ?case by simp
next
  case (Cons r rs)
  then obtain xs where "r = Inr xs" by auto
  then show ?case using Cons by simp
qed

lemma collect_first_error:
  "\<exists>r \<in> set rs. \<exists>e. r = Inl e \<Longrightarrow> \<exists>e. collect acc rs = Inl e \<and> Inl e \<in> set rs"
proof (induction rs arbitrary: acc)
  case Nil
  then show ?case by simp
next
  case (Cons r rs)
  show ?case
  proof (cases r)
    case (Inl e)
    then show ?thesis by simp
  next
    case (Inr xs)
    then have "\<exists>r \<in> set rs. \<exists>e. r = Inl e" using Cons.prems by auto
    from Cons.IH [OF this, of "acc @ xs"] show ?thesis using Inr by auto
  qed
qed

lemma collect_only_error:
  assumes "Inl e \<in> set rs" and "\<forall>r \<in> set rs. \<forall>e'. r = Inl e' \<longrightarrow> e' = e"
  shows "collect acc rs = Inl e"
proof -
  from collect_first_error [of rs acc] assms(1)
  obtain e' where "collect acc rs = Inl e'" "Inl e' \<in> set rs" by blast
  then show ?thesis using assms(2) by auto
qed

text \<open>
  A shard's task when its searcher exists: the handle the task works with has that
  searcher, and the only events before the call to it are loads.
\<close>

lemma ensure_shard:
  assumes "sh \<in> set SHARDS" and "task_searcher E c sh ef enc b"
  shows "\<exists>cfg c1 loads.
           ensure E c sh (Inr (new_config sh (Some ef) (Some enc) None)) = (Inr cfg, c1) \<and>
           searcher cfg = Some b \<and> trace c1 = trace c @ loads \<and>
           filter is_search_call loads = []"
proof -
  let ?fresh = "new_config sh (Some ef) (Some enc) None :: 'b IndexConfig"
  have fresh: "name ?fresh = sh" "ef_search ?fresh = Some ef" "encoder ?fresh = Some enc"
    by (simp_all add: new_config_def)
  have load: "hnsw_from_prebuilt_index E sh (Some ef) (Some enc) = Inr (Some b) \<Longrightarrow>
              add_index E c ?fresh
                = (Inr (?fresh\<lparr>searcher := Some b\<rparr>),
                   store (?fresh\<lparr>searcher := Some b\<rparr>) (log (LoadHnsw sh (Some ef) (Some enc)) c))"
    using assms(1) by (simp add: add_index_def fresh)
  have shape: "\<exists>cfg c1 loads.
           add_index E c ?fresh = (Inr cfg, c1) \<and>
           searcher cfg = Some b \<and> trace c1 = trace c @ loads \<and>
           filter is_search_call loads = []"
    if "hnsw_from_prebuilt_index E sh (Some ef) (Some enc) = Inr (Some b)"
  proof -
    have "trace (store (?fresh\<lparr>searcher := Some b\<rparr>) (log (LoadHnsw sh (Some ef) (Some enc)) c))
            = trace c @ [LoadHnsw sh (Some ef) (Some enc)]"
      by (simp add: store_def log_def)
    moreover have "filter is_search_call [LoadHnsw sh (Some ef) (Some enc) :: 'b event] = []"
      by simp
    moreover have "searcher (?fresh\<lparr>searcher := Some b\<rparr>) = Some b" by simp
    ultimately show ?thesis using load [OF that] by blast
  qed
  show ?thesis
  proof (cases "indexes c sh")
    case None
    then have "hnsw_from_prebuilt_index E sh (Some ef) (Some enc) = Inr (Some b)"
      using assms(2) by (simp add: task_searcher_def)
    from shape [OF this] show ?thesis using None by (simp add: ensure_def provision_def)
  next
    case (Some cfg)
    show ?thesis
    proof (cases "searcher cfg")
      case None
      then have "hnsw_from_prebuilt_index E sh (Some ef) (Some enc) = Inr (Some b)"
        using assms(2) Some by (simp add: task_searcher_def)
      from shape [OF this] show ?thesis using None Some by (simp add: ensure_def provision_def)
    next
      case inner: (Some b')
      then have "b' = b" using assms(2) Some by (simp add: task_searcher_def)
      then have "ensure E c sh (Inr ?fresh) = (Inr cfg, c)" "searcher cfg = Some b"
        using Some inner by (simp_all add: ensure_def)
      moreover have "trace c = trace c @ []" "filter is_search_call ([] :: 'b event list) = []"
        by simp_all
      ultimately show ?thesis by blast
    qed
  qed
qed

lemma task_with_searcher:
  assumes "sh \<in> set SHARDS" and "task_searcher E c sh ef enc b"
  shows "fst (search_single_shard E c sh q k ef enc) =
           (case searcher_search E b q k of
              Inl e \<Rightarrow> Inl (BackendError e)
            | Inr hits \<Rightarrow> Inr (map (\<lambda>h. \<lparr>docid = hit_docid h, score = hit_score h\<rparr>) hits))"
    and "\<exists>loads. trace (snd (search_single_shard E c sh q k ef enc))
                    = trace c @ loads @ [SearchCall b q k] \<and>
                  filter is_search_call loads = []"
proof -
  from ensure_shard [OF assms]
  obtain cfg c1 loads where
    e: "ensure E c sh (Inr (new_config sh (Some ef) (Some enc) None)) = (Inr cfg, c1)"
    and s: "searcher cfg = Some b" and t: "trace c1 = trace c @ loads"
    and f: "filter is_search_call loads = []"
    by blast
  show "fst (search_single_shard E c sh q k ef enc) =
           (case searcher_search E b q k of
              Inl e \<Rightarrow> Inl (BackendError e)
            | Inr hits \<Rightarrow> Inr (map (\<lambda>h. \<lparr>docid = hit_docid h, score = hit_score h\<rparr>) hits))"
    unfolding task_unfold(1) [OF e] by (simp add: task_tail_def s)
  have "trace (snd (search_single_shard E c sh q k ef enc)) = trace c @ loads @ [SearchCall b q k]"
    unfolding task_unfold(2) [OF e] by (simp add: s t log_def)
  then show "\<exists>loads. trace (snd (search_single_shard E c sh q k ef enc))
                    = trace c @ loads @ [SearchCall b q k] \<and>
                  filter is_search_call loads = []"
    using f by blast
qed

lemma task_searcher_cong:
  "indexes c1 sh = indexes c2 sh \<Longrightarrow> task_searcher E c1 sh ef enc b = task_searcher E c2 sh ef enc b"
  by (simp add: task_searcher_def)

lemma demo_task_searcher:
  "task_searcher demo_env init_controller sh ef enc sh"
  "task_searcher failing_env init_controller sh ef enc sh"
  by (simp_all add: task_searcher_def init_controller_def demo_env_def failing_env_def)

lemma failing_env_task:
  assumes "sh \<in> set SHARDS"
  shows "fst (search_single_shard failing_env init_controller sh q k ef enc) =
           (if sh = SHARDS ! 4 then Inl (BackendError ''index reader closed'')
            else Inr (map (\<lambda>h. \<lparr>docid = hit_docid h, score = hit_score h\<rparr>)
                        (take (nat k) (shard_hits sh))))"
  unfolding task_with_searcher(1) [OF assms demo_task_searcher(2)]
  by (simp add: failing_env_def demo_env_def)

lemma demo_task:
  assumes "sh \<in> set SHARDS"
  shows "fst (search_single_shard demo_env init_controller sh q k ef enc) =
           Inr (map (\<lambda>h. \<lparr>docid = hit_docid h, score = hit_score h\<rparr>) (take (nat k) (shard_hits sh)))"
  unfolding task_with_searcher(1) [OF assms demo_task_searcher(1)]
  by (simp add: demo_env_def)

subsection \<open>A failing shard\<close>

text \<open>
  Claim C9. Let the tasks complete in any order in which no shard occurs twice.
  If the task of one shard raises, \<open>sharded_search\<close> raises too: its result is an
  error, never a list, and the error is the one raised by the task of a shard, the
  first failing one in the order of completion. When no task raises a different
  error, \<open>sharded_search\<close> raises exactly the error of the failing task.
\<close>

theorem sharded_search_fails_with_shard:
  assumes "distinct order" and "sh \<in> set order"
    and "fst (search_single_shard E c sh q k ef enc) = Inl e"
  shows "(\<exists>e' sh'. sh' \<in> set order \<and> fst (search_single_shard E c sh' q k ef enc) = Inl e' \<and>
            fst (sharded_search E c order q k ef enc) = Inl e')
       \<and> ((\<forall>sh' \<in> set order. \<forall>e'. fst (search_single_shard E c sh' q k ef enc) = Inl e' \<longrightarrow> e' = e)
            \<longrightarrow> fst (sharded_search E c order q k ef enc) = Inl e)"
proof -
  let ?rs = "map (\<lambda>s. fst (search_single_shard E c s q k ef enc)) order"
  obtain rs c1 where u: "run_tasks E c order q k ef enc = (rs, c1)"
    by (cases "run_tasks E c order q k ef enc")
  have rs: "rs = ?rs" using run_tasks_results [OF assms(1), of E c q k ef enc] u by simp
  have res: "fst (sharded_search E c order q k ef enc)
               = (case collect [] ?rs of Inl x \<Rightarrow> Inl x
                  | Inr a \<Rightarrow> Inr (slice_to k (sort_desc a)))"
    by (simp add: sharded_search_def u rs split: sum.split)
  have m: "Inl e \<in> set ?rs" using assms(2,3) by force
  then have "\<exists>r \<in> set ?rs. \<exists>x. r = Inl x" by blast
  from collect_first_error [OF this, of "[]"]
  obtain e' where c: "collect [] ?rs = Inl e'" "Inl e' \<in> set ?rs" by blast
  from c(2) obtain sh' where "sh' \<in> set order" "fst (search_single_shard E c sh' q k ef enc) = Inl e'"
    by auto
  then have 1: "\<exists>e' sh'. sh' \<in> set order \<and> fst (search_single_shard E c sh' q k ef enc) = Inl e' \<and>
            fst (sharded_search E c order q k ef enc) = Inl e'"
    using c(1) res by auto
  have 2: "(\<forall>sh' \<in> set order. \<forall>e'. fst (search_single_shard E c sh' q k ef enc) = Inl e' \<longrightarrow> e' = e)
            \<longrightarrow> fst (sharded_search E c order q k ef enc) = Inl e"
  proof
    assume "\<forall>sh' \<in> set order. \<forall>e'. fst (search_single_shard E c sh' q k ef enc) = Inl e' \<longrightarrow> e' = e"
    then have "\<forall>r \<in> set ?rs. \<forall>e'. r = Inl e' \<longrightarrow> e' = e" by auto
    from collect_only_error [OF m this, of "[]"] show "fst (sharded_search E c order q k ef enc) = Inl e"
      using res by simp
  qed
  show ?thesis using 1 2 by (rule conjI)
qed

theorem sharded_search_fails_with_shard_witness:
  "distinct (rev SHARDS) \<and> SHARDS ! 4 \<in> set (rev SHARDS) \<and>
   fst (search_single_shard failing_env init_controller (SHARDS ! 4) ''q'' 3 100 ''enc'')
     = Inl (BackendError ''index reader closed'') \<and>
   filter (\<lambda>sh. isl (fst (search_single_shard failing_env init_controller sh ''q'' 3 100 ''enc'')))
     (rev SHARDS) = [SHARDS ! 4] \<and>
   fst (search_single_shard failing_env init_controller (SHARDS ! 0) ''q'' 3 100 ''enc'')
     = Inr [\<lparr>docid = ''a1'', score = 9\<rparr>, \<lparr>docid = ''a2'', score = 7\<rparr>, \<lparr>docid = ''a3'', score = 5\<rparr>] \<and>
   fst (sharded_search failing_env init_controller (rev SHARDS) ''q'' 3 100 ''enc'')
     = Inl (BackendError ''index reader closed'')"
proof -
  let ?e = "BackendError ''index reader closed''"
  have d: "distinct (rev SHARDS)" using shards_distinct by simp
  have m4: "SHARDS ! 4 \<in> set SHARDS" by (simp add: SHARDS_list)
  have m0: "SHARDS ! 0 \<in> set SHARDS" by (simp add: SHARDS_list)
  have m: "SHARDS ! 4 \<in> set (rev SHARDS)" using m4 by simp
  have f: "fst (search_single_shard failing_env init_controller (SHARDS ! 4) ''q'' 3 100 ''enc'') = Inl ?e"
    by (simp add: failing_env_task [OF m4])
  have o: "\<forall>sh' \<in> set (rev SHARDS). \<forall>e'.
       fst (search_single_shard failing_env init_controller sh' ''q'' 3 100 ''enc'') = Inl e'
         \<longrightarrow> e' = ?e"
  proof (intro ballI allI impI)
    fix sh' e'
    assume "sh' \<in> set (rev SHARDS)"
      and "fst (search_single_shard failing_env init_controller sh' ''q'' 3 100 ''enc'') = Inl e'"
    then show "e' = ?e"
      using failing_env_task [of sh' "''q''" 3 100 "''enc''"] by (simp split: if_splits)
  qed
  have g: "fst (search_single_shard failing_env init_controller (SHARDS ! 0) ''q'' 3 100 ''enc'')
     = Inr [\<lparr>docid = ''a1'', score = 9\<rparr>, \<lparr>docid = ''a2'', score = 7\<rparr>, \<lparr>docid = ''a3'', score = 5\<rparr>]"
    unfolding failing_env_task [OF m0]
    by (simp add: SHARDS_list shard_hits_def)
  have t: "fst (sharded_search failing_env init_controller (rev SHARDS) ''q'' 3 100 ''enc'') = Inl ?e"
    using sharded_search_fails_with_shard [OF d m f] o by blast
  have l: "filter (\<lambda>sh. isl (fst (search_single_shard failing_env init_controller sh ''q'' 3 100 ''enc'')))
             (rev SHARDS) = [SHARDS ! 4]"
    by (simp add: SHARDS_list failing_env_task)
  from d m f l g t show ?thesis by (intro conjI)
qed

subsection \<open>The merge\<close>

lemma sort_desc_mset: "mset (sort_desc xs) = mset xs"
  by (simp add: sort_desc_def)

lemma sort_desc_sorted: "sorted_wrt (\<lambda>a b. score b \<le> score a) (sort_desc xs)"
proof -
  have "sorted (map score (sort_key score (rev xs)))" by (rule sorted_sort_key)
  then have "sorted_wrt (\<lambda>a b. score a \<le> score b) (sort_key score (rev xs))"
    by (simp add: sorted_map)
  then show ?thesis by (simp add: sort_desc_def sorted_wrt_rev)
qed

lemma sort_desc_scores: "map score (sort_desc xs) = rev (sort (map score xs))"
proof -
  have "sort (map score xs) = map score (sort_key score (rev xs))"
    by (rule properties_for_sort) simp_all
  then show ?thesis by (simp add: sort_desc_def rev_map)
qed

lemma slice_to_nonneg: "0 \<le> k \<Longrightarrow> slice_to k xs = take (nat k) xs"
  by (simp add: slice_to_def)

lemma sorted_wrt_take_drop:
  assumes "sorted_wrt P ys" and "y \<in> set (take n ys)" and "x \<in> set (drop n ys)"
  shows "P y x"
proof -
  have "sorted_wrt P (take n ys @ drop n ys)" using assms(1) by simp
  then show ?thesis using assms(2,3) unfolding sorted_wrt_append by blast
qed

lemma mset_take_diff: "mset ys - mset (take n ys) = mset (drop n ys)"
proof -
  have "mset ys = mset (take n ys) + mset (drop n ys)"
    by (metis append_take_drop_id mset_append)
  then show ?thesis by simp
qed

lemma mset_concat_map_cong:
  assumes "mset xs = mset ys"
  shows "mset (concat (map f xs)) = mset (concat (map f ys))"
proof -
  have "mset (concat (map f zs)) = sum_mset (image_mset (\<lambda>z. mset (f z)) (mset zs))" for zs
    by (induction zs) simp_all
  then show ?thesis using assms by simp
qed

lemma top_of_sorted_pool:
  fixes pool :: "('s::linorder) scored list"
  assumes "0 \<le> k"
  defines "R \<equiv> slice_to k (sort_desc pool)"
  shows "length R = min (nat k) (length pool)"
    and "sorted_wrt (\<lambda>a b. score b \<le> score a) R"
    and "mset R \<subseteq># mset pool"
    and "\<forall>x \<in># mset pool - mset R. \<forall>y \<in> set R. score x \<le> score y"
    and "map score R = take (nat k) (rev (sort (map score pool)))"
proof -
  have R: "R = take (nat k) (sort_desc pool)"
    using assms by (simp add: slice_to_nonneg)
  show "length R = min (nat k) (length pool)"
    by (simp add: R sort_desc_def)
  show "sorted_wrt (\<lambda>a b. score b \<le> score a) R"
    unfolding R using sort_desc_sorted [of pool] by (rule sorted_wrt_take)
  have "mset R \<subseteq># mset (sort_desc pool)"
    unfolding R by (metis append_take_drop_id mset_append mset_subset_eq_add_left)
  then show "mset R \<subseteq># mset pool" by (simp add: sort_desc_mset)
  have d: "mset pool - mset R = mset (drop (nat k) (sort_desc pool))"
    unfolding R using mset_take_diff [of "sort_desc pool" "nat k"] by (simp add: sort_desc_mset)
  show "\<forall>x \<in># mset pool - mset R. \<forall>y \<in> set R. score x \<le> score y"
    unfolding d unfolding R
    using sorted_wrt_take_drop [OF sort_desc_sorted [of pool]] by auto
  show "map score R = take (nat k) (rev (sort (map score pool)))"
    by (simp add: R take_map sort_desc_scores [symmetric])
qed

lemma sharded_search_all_ok:
  assumes "distinct order"
    and "\<forall>sh \<in> set order. fst (search_single_shard E c sh q k ef enc) = Inr (res sh)"
  shows "fst (sharded_search E c order q k ef enc)
           = Inr (slice_to k (sort_desc (concat (map res order))))"
proof -
  let ?rs = "map (\<lambda>s. fst (search_single_shard E c s q k ef enc)) order"
  obtain rs c1 where u: "run_tasks E c order q k ef enc = (rs, c1)"
    by (cases "run_tasks E c order q k ef enc")
  have rs: "rs = ?rs" using run_tasks_results [OF assms(1), of E c q k ef enc] u by simp
  have eq: "?rs = map (\<lambda>s. Inr (res s)) order"
    using assms(2) by (intro map_cong [OF refl]) simp
  have ok: "\<forall>r \<in> set ?rs. \<exists>xs. r = Inr xs" unfolding eq by auto
  have "collect [] ?rs = Inr ([] @ concat (map projr ?rs))"
    by (rule collect_all_ok [OF ok])
  also have "concat (map projr ?rs) = concat (map res order)"
    unfolding eq by (simp add: comp_def)
  finally have "collect [] rs = Inr (concat (map res order))" using rs by simp
  then show ?thesis by (simp add: sharded_search_def u)
qed

lemma demo_pool_eq: "concat (map demo_res SHARDS) = demo_pool"
  by (simp add: demo_res_def demo_pool_def SHARDS_list shard_hits_def DEFAULT_INDEX_def)

lemma demo_pool_by_score:
  assumes "x \<in> set demo_pool"
  shows "x = \<lparr>docid = docid x, score = score x\<rparr>"
    and "score x = 9 \<Longrightarrow> docid x = ''a1''"
    and "score x = 8 \<Longrightarrow> docid x = ''b1''"
    and "score x = 7 \<Longrightarrow> docid x = ''a2''"
  using assms by (auto simp: demo_pool_def)

text \<open>
  Claim C1. Let \<open>k\<close> be positive, let every shard's task return a list, and let the
  tasks complete in any order that names every shard once. The pool is the
  lists of all shards put together. Then \<open>sharded_search\<close> returns a list \<open>R\<close> with
  these properties: its length is the smaller of \<open>k\<close> and the size of the pool; its
  scores never increase from one entry to the next; its entries are entries of the
  pool, each taken at most as often as it occurs there; every entry of the pool
  left out has a score no higher than any entry of \<open>R\<close>; and the scores of \<open>R\<close> are
  the first \<open>k\<close> of the pool's scores sorted from the highest down, whatever the
  order of completion. Scores are taken from a linear order.
\<close>

theorem sharded_search_top_k:
  fixes E :: "('s::linorder, 'b) env"
  assumes "distinct order" and "set order = set SHARDS" and "0 < k"
    and "\<forall>sh \<in> set SHARDS. fst (search_single_shard E c sh q k ef enc) = Inr (res sh)"
  shows "\<exists>R. fst (sharded_search E c order q k ef enc) = Inr R \<and>
           length R = min (nat k) (length (concat (map res SHARDS))) \<and>
           sorted_wrt (\<lambda>a b. score b \<le> score a) R \<and>
           mset R \<subseteq># mset (concat (map res SHARDS)) \<and>
           (\<forall>x \<in># mset (concat (map res SHARDS)) - mset R. \<forall>y \<in> set R. score x \<le> score y) \<and>
           map score R = take (nat k) (rev (sort (map score (concat (map res SHARDS)))))"
proof -
  let ?pool = "concat (map res order)"
  let ?R = "slice_to k (sort_desc ?pool)"
  have "mset order = mset SHARDS"
    using assms(1,2) shards_distinct by (simp add: set_eq_iff_mset_eq_distinct)
  then have p: "mset ?pool = mset (concat (map res SHARDS))"
    by (rule mset_concat_map_cong)
  then have l: "length ?pool = length (concat (map res SHARDS))"
    by (rule mset_eq_length)
  have s: "sort (map score ?pool) = sort (map score (concat (map res SHARDS)))"
    using p by (metis mset_map sorted_list_of_multiset_mset)
  have k: "0 \<le> k" using assms(3) by simp
  have r: "fst (sharded_search E c order q k ef enc) = Inr ?R"
    using sharded_search_all_ok [OF assms(1), of E c q k ef enc res] assms(2,4) by simp
  note t = top_of_sorted_pool [OF k, of ?pool]
  show ?thesis
    using r t(1) t(2) t(3) t(4) t(5) unfolding p l s by blast
qed

theorem sharded_search_top_k_witness:
  "distinct (rev SHARDS) \<and> set (rev SHARDS) = set SHARDS \<and> (0::int) < 3 \<and>
   map (\<lambda>sh. fst (search_single_shard demo_env init_controller sh ''q'' 3 100 ''enc'')) SHARDS
     = map (\<lambda>sh. Inr (demo_res sh)) SHARDS \<and>
   concat (map demo_res SHARDS) = demo_pool \<and>
   fst (sharded_search demo_env init_controller (rev SHARDS) ''q'' 3 100 ''enc'')
     = Inr [\<lparr>docid = ''a1'', score = 9\<rparr>, \<lparr>docid = ''b1'', score = 8\<rparr>, \<lparr>docid = ''a2'', score = 7\<rparr>]"
proof -
  have d: "distinct (rev SHARDS)" using shards_distinct by simp
  have s: "set (rev SHARDS) = set SHARDS" by simp
  have k: "(0::int) < 3" by simp
  have h: "\<forall>sh \<in> set SHARDS.
             fst (search_single_shard demo_env init_controller sh ''q'' 3 100 ''enc'') = Inr (demo_res sh)"
    by (simp add: demo_task demo_res_def)
  have hm: "map (\<lambda>sh. fst (search_single_shard demo_env init_controller sh ''q'' 3 100 ''enc'')) SHARDS
              = map (\<lambda>sh. Inr (demo_res sh)) SHARDS"
    using h by (intro map_cong [OF refl]) simp
  from sharded_search_top_k [OF d s k h]
  obtain R where r: "fst (sharded_search demo_env init_controller (rev SHARDS) ''q'' 3 100 ''enc'') = Inr R"
    and len: "length R = min (nat 3) (length (concat (map demo_res SHARDS)))"
    and sub: "mset R \<subseteq># mset (concat (map demo_res SHARDS))"
    and sc: "map score R = take (nat 3) (rev (sort (map score (concat (map demo_res SHARDS)))))"
    by blast
  have sc': "map score R = [9, 8, 7]"
    unfolding sc demo_pool_eq by (simp add: demo_pool_def numeral_3_eq_3)
  then obtain x y z where R: "R = [x, y, z]" "score x = 9" "score y = 8" "score z = 7"
    by auto
  have "set R \<subseteq> set demo_pool"
    using sub unfolding demo_pool_eq by (metis set_mset_mono set_mset_mset)
  then have "x \<in> set demo_pool" "y \<in> set demo_pool" "z \<in> set demo_pool"
    using R(1) by auto
  then have "x = \<lparr>docid = ''a1'', score = 9\<rparr>" "y = \<lparr>docid = ''b1'', score = 8\<rparr>"
    "z = \<lparr>docid = ''a2'', score = 7\<rparr>"
    using demo_pool_by_score [of x] demo_pool_by_score [of y] demo_pool_by_score [of z] R(2-4)
    by simp_all
  then have t: "fst (sharded_search demo_env init_controller (rev SHARDS) ''q'' 3 100 ''enc'')
     = Inr [\<lparr>docid = ''a1'', score = 9\<rparr>, \<lparr>docid = ''b1'', score = 8\<rparr>, \<lparr>docid = ''a2'', score = 7\<rparr>]"
    using r R(1) by simp
  from d s k hm demo_pool_eq t show ?thesis by (intro conjI)
qed

subsection \<open>What the shard tasks ask of their searchers\<close>

lemma sharded_search_state:
  "snd (sharded_search E c order q k ef enc) = snd (run_tasks E c order q k ef enc)"
proof -
  obtain rs c1 where u: "run_tasks E c order q k ef enc = (rs, c1)"
    by (cases "run_tasks E c order q k ef enc")
  show ?thesis
    by (cases "collect [] rs") (simp_all add: sharded_search_def u)
qed

lemma run_tasks_calls:
  assumes "distinct order" and "set order \<subseteq> set SHARDS"
    and "\<forall>sh \<in> set order. task_searcher E c sh ef enc (bk sh)"
  shows "\<exists>evs. trace (snd (run_tasks E c order q k ef enc)) = trace c @ evs \<and>
               filter is_search_call evs = map (\<lambda>sh. SearchCall (bk sh) q k) order"
  using assms
proof (induction order arbitrary: c)
  case Nil
  then show ?case by simp
next
  case (Cons sh rest)
  obtain r c1 where t: "search_single_shard E c sh q k ef enc = (r, c1)"
    by (cases "search_single_shard E c sh q k ef enc")
  obtain rs c2 where u: "run_tasks E c1 rest q k ef enc = (rs, c2)"
    by (cases "run_tasks E c1 rest q k ef enc")
  have sh: "sh \<in> set SHARDS" "task_searcher E c sh ef enc (bk sh)"
    using Cons.prems by auto
  from task_with_searcher(2) [OF sh, of q k] t
  obtain loads where l: "trace c1 = trace c @ loads @ [SearchCall (bk sh) q k]"
    "filter is_search_call loads = []"
    by auto
  have rest: "\<forall>s \<in> set rest. task_searcher E c1 s ef enc (bk s)"
  proof
    fix s assume s: "s \<in> set rest"
    then have "s \<noteq> sh" using Cons.prems(1) by auto
    then have "indexes c1 s = indexes c s"
      using task_elsewhere [of s sh E c q k ef enc] t by simp
    then show "task_searcher E c1 s ef enc (bk s)"
      using Cons.prems(3) s task_searcher_cong [of c1 s c E ef enc "bk s"] by simp
  qed
  have "distinct rest" "set rest \<subseteq> set SHARDS" using Cons.prems by auto
  from Cons.IH [OF this rest] u
  obtain evs where e: "trace c2 = trace c1 @ evs"
    "filter is_search_call evs = map (\<lambda>s. SearchCall (bk s) q k) rest"
    by auto
  have "trace (snd (run_tasks E c (sh # rest) q k ef enc))
          = trace c @ (loads @ [SearchCall (bk sh) q k] @ evs)"
    using t u l(1) e(1) by simp
  moreover have "filter is_search_call (loads @ [SearchCall (bk sh) q k] @ evs)
                   = map (\<lambda>s. SearchCall (bk s) q k) (sh # rest)"
    using l(2) e(2) by simp
  ultimately show ?case by blast
qed

text \<open>
  Claim C2. Let the tasks complete in any order that names every shard once, and
  let every shard have a searcher: the one of its handle in the registry, or else
  the one loaded for it with the caller's search width and encoder. Then the
  \<open>search\<close> calls that \<open>sharded_search\<close> makes are, in the order of completion, one
  call for every shard, on that shard's searcher, with the caller's query and the
  caller's \<open>k\<close>, and no other. The task of a shard returns what that call returned,
  each hit reduced to its document id and score, none dropped and none added.
  And when every one of these calls returns a list, the pool that is sorted and
  cut to \<open>k\<close> is these lists put together, all of every shard.
\<close>

theorem shard_tasks_search_with_callers_k:
  fixes E :: "('s::linorder, 'b) env"
  assumes "distinct order" and "set order = set SHARDS"
    and "\<forall>sh \<in> set SHARDS. task_searcher E c sh ef enc (bk sh)"
  shows "(\<exists>evs. trace (snd (sharded_search E c order q k ef enc)) = trace c @ evs \<and>
                filter is_search_call evs = map (\<lambda>sh. SearchCall (bk sh) q k) order)
       \<and> (\<forall>sh \<in> set SHARDS.
             fst (search_single_shard E c sh q k ef enc) =
               (case searcher_search E (bk sh) q k of
                  Inl e \<Rightarrow> Inl (BackendError e)
                | Inr hits \<Rightarrow> Inr (map (\<lambda>h. \<lparr>docid = hit_docid h, score = hit_score h\<rparr>) hits)))
       \<and> ((\<forall>sh \<in> set SHARDS. searcher_search E (bk sh) q k = Inr (hits sh)) \<longrightarrow>
            fst (sharded_search E c order q k ef enc) =
              Inr (slice_to k (sort_desc (concat (map
                     (\<lambda>sh. map (\<lambda>h. \<lparr>docid = hit_docid h, score = hit_score h\<rparr>) (hits sh)) order)))))"
proof (intro conjI impI)
  have "set order \<subseteq> set SHARDS" and "\<forall>sh \<in> set order. task_searcher E c sh ef enc (bk sh)"
    using assms(2,3) by auto
  from run_tasks_calls [OF assms(1) this]
  show "\<exists>evs. trace (snd (sharded_search E c order q k ef enc)) = trace c @ evs \<and>
               filter is_search_call evs = map (\<lambda>sh. SearchCall (bk sh) q k) order"
    by (simp add: sharded_search_state)
next
  show tasks: "\<forall>sh \<in> set SHARDS.
             fst (search_single_shard E c sh q k ef enc) =
               (case searcher_search E (bk sh) q k of
                  Inl e \<Rightarrow> Inl (BackendError e)
                | Inr hits \<Rightarrow> Inr (map (\<lambda>h. \<lparr>docid = hit_docid h, score = hit_score h\<rparr>) hits))"
  proof
    fix sh assume m: "sh \<in> set SHARDS"
    then have "task_searcher E c sh ef enc (bk sh)" using assms(3) by blast
    from task_with_searcher(1) [OF m this]
    show "fst (search_single_shard E c sh q k ef enc) =
               (case searcher_search E (bk sh) q k of
                  Inl e \<Rightarrow> Inl (BackendError e)
                | Inr hits \<Rightarrow> Inr (map (\<lambda>h. \<lparr>docid = hit_docid h, score = hit_score h\<rparr>) hits))" .
  qed
  assume ok: "\<forall>sh \<in> set SHARDS. searcher_search E (bk sh) q k = Inr (hits sh)"
  have "\<forall>sh \<in> set order. fst (search_single_shard E c sh q k ef enc)
           = Inr (map (\<lambda>h. \<lparr>docid = hit_docid h, score = hit_score h\<rparr>) (hits sh))"
    using tasks ok assms(2) by simp
  from sharded_search_all_ok [OF assms(1) this]
  show "fst (sharded_search E c order q k ef enc) =
          Inr (slice_to k (sort_desc (concat (map
                 (\<lambda>sh. map (\<lambda>h. \<lparr>docid = hit_docid h, score = hit_score h\<rparr>) (hits sh)) order))))" .
qed

lemma demo_order_pool:
  "concat (map (\<lambda>sh. map (\<lambda>h. \<lparr>docid = hit_docid h, score = hit_score h\<rparr>) (take 3 (shard_hits sh)))
             (rev SHARDS))
     = [\<lparr>docid = ''c1'', score = 3\<rparr>, \<lparr>docid = ''c2'', score = 2\<rparr>, \<lparr>docid = ''c3'', score = 1\<rparr>,
        \<lparr>docid = ''b1'', score = 8\<rparr>, \<lparr>docid = ''b2'', score = 6\<rparr>, \<lparr>docid = ''b3'', score = 4\<rparr>,
        \<lparr>docid = ''a1'', score = 9\<rparr>, \<lparr>docid = ''a2'', score = 7\<rparr>, \<lparr>docid = ''a3'', score = 5\<rparr>]"
  by (simp add: SHARDS_list shard_hits_def DEFAULT_INDEX_def)

theorem shard_tasks_search_with_callers_k_witness:
  "distinct (rev SHARDS) \<and> set (rev SHARDS) = set SHARDS \<and>
   map (\<lambda>sh. task_searcher demo_env init_controller sh 100 ''enc'' sh) SHARDS
     = map (\<lambda>sh. True) SHARDS \<and>
   filter is_search_call
     (trace (snd (sharded_search demo_env init_controller (rev SHARDS) ''q'' 3 100 ''enc'')))
     = map (\<lambda>sh. SearchCall sh ''q'' 3) (rev SHARDS) \<and>
   fst (search_single_shard demo_env init_controller (SHARDS ! 1) ''q'' 3 100 ''enc'')
     = Inr [\<lparr>docid = ''b1'', score = 8\<rparr>, \<lparr>docid = ''b2'', score = 6\<rparr>, \<lparr>docid = ''b3'', score = 4\<rparr>] \<and>
   map (\<lambda>sh. searcher_search demo_env sh ''q'' 3) SHARDS
     = map (\<lambda>sh. Inr (take 3 (shard_hits sh))) SHARDS \<and>
   fst (sharded_search demo_env init_controller (rev SHARDS) ''q'' 3 100 ''enc'')
     = Inr [\<lparr>docid = ''a1'', score = 9\<rparr>, \<lparr>docid = ''b1'', score = 8\<rparr>, \<lparr>docid = ''a2'', score = 7\<rparr>]"
proof -
  let ?hits = "\<lambda>sh. take 3 (shard_hits sh)"
  have d: "distinct (rev SHARDS)" using shards_distinct by simp
  have s: "set (rev SHARDS) = set SHARDS" by simp
  have p: "\<forall>sh \<in> set SHARDS. task_searcher demo_env init_controller sh 100 ''enc'' sh"
    using demo_task_searcher(1) by blast
  have pm: "map (\<lambda>sh. task_searcher demo_env init_controller sh 100 ''enc'' sh) SHARDS
              = map (\<lambda>sh. True) SHARDS"
    using p by (intro map_cong [OF refl]) simp
  have ok: "\<forall>sh \<in> set SHARDS. searcher_search demo_env sh ''q'' 3 = Inr (?hits sh)"
    by (simp add: demo_env_def)
  have okm: "map (\<lambda>sh. searcher_search demo_env sh ''q'' 3) SHARDS
               = map (\<lambda>sh. Inr (take 3 (shard_hits sh))) SHARDS"
    using ok by (intro map_cong [OF refl]) simp
  note T = shard_tasks_search_with_callers_k
             [OF d s p, where q = "''q''" and k = 3 and hits = ?hits]
  have t0: "trace (init_controller :: string controller) = []"
    by (simp add: init_controller_def)
  from T obtain evs where
    "trace (snd (sharded_search demo_env init_controller (rev SHARDS) ''q'' 3 100 ''enc''))
       = trace (init_controller :: string controller) @ evs"
    "filter is_search_call evs = map (\<lambda>sh. SearchCall sh ''q'' 3) (rev SHARDS)"
    by blast
  then have calls: "filter is_search_call
     (trace (snd (sharded_search demo_env init_controller (rev SHARDS) ''q'' 3 100 ''enc'')))
     = map (\<lambda>sh. SearchCall sh ''q'' 3) (rev SHARDS)"
    by (simp add: t0)
  have m1: "SHARDS ! 1 \<in> set SHARDS" by (simp add: SHARDS_list)
  from T m1 have "fst (search_single_shard demo_env init_controller (SHARDS ! 1) ''q'' 3 100 ''enc'')
      = (case searcher_search demo_env (SHARDS ! 1) ''q'' 3 of
           Inl e \<Rightarrow> Inl (BackendError e)
         | Inr hits \<Rightarrow> Inr (map (\<lambda>h. \<lparr>docid = hit_docid h, score = hit_score h\<rparr>) hits))"
    by blast
  then have one: "fst (search_single_shard demo_env init_controller (SHARDS ! 1) ''q'' 3 100 ''enc'')
     = Inr [\<lparr>docid = ''b1'', score = 8\<rparr>, \<lparr>docid = ''b2'', score = 6\<rparr>, \<lparr>docid = ''b3'', score = 4\<rparr>]"
    by (simp add: demo_env_def SHARDS_list shard_hits_def)
  from T ok have "fst (sharded_search demo_env init_controller (rev SHARDS) ''q'' 3 100 ''enc'') =
              Inr (slice_to 3 (sort_desc (concat (map
                     (\<lambda>sh. map (\<lambda>h. \<lparr>docid = hit_docid h, score = hit_score h\<rparr>) (?hits sh))
                     (rev SHARDS)))))"
    by blast
  then have all: "fst (sharded_search demo_env init_controller (rev SHARDS) ''q'' 3 100 ''enc'')
     = Inr [\<lparr>docid = ''a1'', score = 9\<rparr>, \<lparr>docid = ''b1'', score = 8\<rparr>, \<lparr>docid = ''a2'', score = 7\<rparr>]"
    unfolding demo_order_pool by (simp add: slice_to_def sort_desc_def)
  from d s pm calls one okm all show ?thesis by (intro conjI)
qed

end
